theory Spec2Isabelle
  imports Complex_Main "HOL-Library.Log_Nat" "HOL-Library.Code_Target_Nat"
begin

section \<open>The object store as seen from \<open>src/App.jsx\<close>\<close>

text \<open>
  The application talks to an S3-compatible store through \<open>s3Client.send(command)\<close>.
  The store is not part of the repository, so it is a parameter of every handler: a
  function from the store's own state, the client configuration and the command to
  either a thrown error or a response object, together with the store's next state.
  A response is a JavaScript object that the handlers destructure by field name; a
  field that is absent reads as \<open>undefined\<close>, here \<open>None\<close>.
\<close>

text \<open>\<open>error.name\<close> of a rejected request.\<close>

datatype error = Error (error_name: string)

text \<open>The configuration handed to \<open>new S3Client({...})\<close>.\<close>

record S3Client =
  cfg_endpoint :: string
  cfg_region :: string
  cfg_accessKeyId :: string
  cfg_secretAccessKey :: string
  cfg_forcePathStyle :: bool

text \<open>
  The commands the session engine issues. \<open>ListObjectsV2Command\<close> carries
  \<open>Bucket\<close>, \<open>Prefix\<close>, \<open>Delimiter\<close> and \<open>ContinuationToken\<close> (the last two may
  be \<open>undefined\<close>); \<open>DeleteObjectsCommand\<close> carries \<open>Bucket\<close> and the keys of
  \<open>Delete.Objects\<close>. \<open>UploadCommand\<close> stands for
  \<open>new Upload({client, params: {Bucket, Key, Body}}).done()\<close> of lib-storage, which
  reaches the store through the same client; it carries \<open>Bucket\<close>, \<open>Key\<close> and the
  name of the file that is the body.
\<close>

datatype command =
    ListBucketsCommand
  | ListObjectsV2Command string string "string option" "string option"
  | DeleteObjectsCommand string "string list"
  | UploadCommand string string string

record bucket =
  Name :: string

record s3_object =
  Key :: string
  Size :: "nat option"
  LastModified :: "nat option"

record common_prefix =
  Prefix :: string

record response =
  Buckets :: "bucket list option"
  Contents :: "s3_object list option"
  CommonPrefixes :: "common_prefix list option"
  NextContinuationToken :: "string option"

type_synonym 'w service = "'w \<Rightarrow> S3Client \<Rightarrow> command \<Rightarrow> (error + response) \<times> 'w"

text \<open>
  The network as the handlers see it: the store's state and the commands sent so far,
  oldest first. \<open>send\<close> is \<open>s3Client.send\<close>: it records the command and lets the
  store answer.
\<close>

record 'w world =
  store :: 'w
  sent :: "command list"

definition send :: "'w service \<Rightarrow> S3Client \<Rightarrow> command \<Rightarrow> 'w world \<Rightarrow> (error + response) \<times> 'w world" where
  "send srv client cmd w =
     (case srv (store w) client cmd of
        (r, s) \<Rightarrow> (r, \<lparr>store = s, sent = sent w @ [cmd]\<rparr>))"

section \<open>JavaScript helpers\<close>

text \<open>
  Truthiness of a value that is a string or \<open>null\<close>/\<open>undefined\<close>: the empty string
  is falsy as well. It decides \<open>!bucket\<close>, \<open>!selectedBucket\<close> and
  \<open>while (continuationToken)\<close>.
\<close>

fun truthy :: "string option \<Rightarrow> bool" where
  "truthy None = False"
| "truthy (Some s) = (s \<noteq> [])"

text \<open>\<open>x || []\<close> for a list that may be \<open>undefined\<close> (an array is always truthy).\<close>

fun or_empty :: "'a list option \<Rightarrow> 'a list" where
  "or_empty None = []"
| "or_empty (Some xs) = xs"

definition endsWith :: "string \<Rightarrow> string \<Rightarrow> bool" where
  "endsWith s suffix =
     (length suffix \<le> length s \<and> drop (length s - length suffix) s = suffix)"

definition startsWith :: "string \<Rightarrow> string \<Rightarrow> bool" where
  "startsWith s p = (take (length p) s = p)"

text \<open>
  \<open>[...new Set(xs)]\<close>: a \<open>Set\<close> keeps the insertion order of the first occurrence
  of each element.
\<close>

definition Set_add :: "'a list \<Rightarrow> 'a \<Rightarrow> 'a list" where
  "Set_add s x = (if x \<in> set s then s else s @ [x])"

definition new_Set :: "'a list \<Rightarrow> 'a list" where
  "new_Set xs = foldl Set_add [] xs"

section \<open>Application state\<close>

text \<open>
  The \<open>useState\<close> cells of \<open>App\<close>. An entry of \<open>objects\<close> is a listed object
  extended by \<open>isFolder\<close>; a folder entry has only \<open>Key\<close> and \<open>isFolder\<close>.
  \<open>alertData\<close> is the notification last raised by \<open>showAlert\<close> (its identifier and
  its five-second timer are not modelled).
\<close>

record object_entry = s3_object +
  isFolder :: bool

record upload_task =
  id' :: string
  name :: string
  progress :: int

record alert =
  message :: string
  type :: string

record connectionDetails =
  endpoint :: string
  accessKey :: string
  secretKey :: string

record saveConfig = connectionDetails +
  conn_name :: string

record savedConnection = saveConfig +
  conn_id :: nat

record app_state =
  s3Client :: "S3Client option"
  buckets :: "bucket list"
  selectedBucket :: "string option"
  objects :: "object_entry list"
  prefix :: string
  isLoadingBuckets :: bool
  isLoadingObjects :: bool
  uploadingFiles :: "upload_task list"
  selectedItems :: "string list"
  isDeleteModalOpen :: bool
  searchQuery :: string
  savedConnections :: "savedConnection list"
  alertData :: "alert option"

definition showAlert :: "string \<Rightarrow> string \<Rightarrow> app_state \<Rightarrow> app_state" where
  "showAlert msg ty st = st\<lparr>alertData := Some \<lparr>message = msg, type = ty\<rparr>\<rparr>"

section \<open>Namespace navigator: \<open>fetchObjects\<close> and the navigation events\<close>

text \<open>
  Lines 328 to 330: common prefixes become folder entries, listed objects other than
  the one whose key is the current prefix become file entries, folders first.
\<close>

definition folders_of :: "response \<Rightarrow> object_entry list" where
  "folders_of out =
     map (\<lambda>p. \<lparr>Key = Prefix p, Size = None, LastModified = None, isFolder = True\<rparr>)
       (or_empty (CommonPrefixes out))"

definition files_of :: "response \<Rightarrow> string \<Rightarrow> object_entry list" where
  "files_of out currentPrefix =
     map (\<lambda>c. s3_object.extend c \<lparr>isFolder = False\<rparr>)
       (filter (\<lambda>c. Key c \<noteq> currentPrefix) (or_empty (Contents out)))"

text \<open>
  \<open>fetchObjects(bucket, currentPrefix)\<close>, lines 320 to 336. The guard
  \<open>!s3Client || !bucket\<close> returns before anything is set (a \<open>null\<close> bucket and the
  empty string are both falsy); otherwise the selection and the search query are cleared, the
  delimited listing is requested, and either the entries are stored or a notification
  is raised. The \<open>finally\<close> block resets the loading flag on both paths.
\<close>

definition fetchObjects ::
  "'w service \<Rightarrow> string option \<Rightarrow> string \<Rightarrow> app_state \<Rightarrow> 'w world \<Rightarrow> app_state \<times> 'w world" where
  "fetchObjects srv bucket currentPrefix st w =
     (case s3Client st of
        None \<Rightarrow> (st, w)
      | Some client \<Rightarrow>
          (case bucket of
             None \<Rightarrow> (st, w)
           | Some b \<Rightarrow>
               if b = [] then (st, w)
               else
                 let st1 = st\<lparr>isLoadingObjects := True, selectedItems := [], searchQuery := []\<rparr>
                 in (case send srv client (ListObjectsV2Command b currentPrefix (Some ''/'') None) w of
                       (Inr out, w') \<Rightarrow>
                         (st1\<lparr>objects := folders_of out @ files_of out currentPrefix,
                              isLoadingObjects := False\<rparr>, w')
                     | (Inl e, w') \<Rightarrow>
                         ((showAlert (''Could not list objects in '' @ b @ ''.'') ''error'' st1)
                            \<lparr>isLoadingObjects := False\<rparr>, w'))))"

text \<open>
  The effect of lines 437 to 439 runs after a render in which \<open>selectedBucket\<close> or
  \<open>prefix\<close> changed (the client does not change while connected). An event handler
  followed by the effect it triggers is one step of the model: no other event is
  interleaved with a handler that is waiting for the store.
\<close>

definition useEffect_fetchObjects ::
  "'w service \<Rightarrow> app_state \<Rightarrow> app_state \<Rightarrow> 'w world \<Rightarrow> app_state \<times> 'w world" where
  "useEffect_fetchObjects srv old st w =
     (if selectedBucket st = selectedBucket old \<and> prefix st = prefix old then (st, w)
      else if s3Client st \<noteq> None then fetchObjects srv (selectedBucket st) (prefix st) st w
      else (st, w))"

text \<open>Line 479: a click on a bucket of the side panel.\<close>

definition onClick_bucket ::
  "'w service \<Rightarrow> bucket \<Rightarrow> app_state \<Rightarrow> 'w world \<Rightarrow> app_state \<times> 'w world" where
  "onClick_bucket srv bk st w =
     useEffect_fetchObjects srv st (st\<lparr>selectedBucket := Some (Name bk), prefix := []\<rparr>) w"

text \<open>Line 550: a click on an entry of the listing; only a folder navigates.\<close>

definition onClick_entry ::
  "'w service \<Rightarrow> object_entry \<Rightarrow> app_state \<Rightarrow> 'w world \<Rightarrow> app_state \<times> 'w world" where
  "onClick_entry srv obj st w =
     (if isFolder obj then useEffect_fetchObjects srv st (st\<lparr>prefix := Key obj\<rparr>) w
      else (st, w))"

text \<open>
  Lines 450 and 493: the breadcrumbs are the root label, the bucket and the non-empty
  segments of the prefix. \<open>split_slash\<close> is \<open>s.split('/')\<close>, \<open>join_slash\<close> is
  \<open>xs.join('/')\<close>. Only the segments after the bucket are needed by a click, so the
  model keeps them apart from the first two crumbs.
\<close>

fun split_from :: "string \<Rightarrow> string \<Rightarrow> string list" where
  "split_from cur [] = [rev cur]"
| "split_from cur (c # cs) =
     (if c = CHR ''/'' then rev cur # split_from [] cs else split_from (c # cur) cs)"

definition split_slash :: "string \<Rightarrow> string list" where
  "split_slash s = split_from [] s"

fun join_slash :: "string list \<Rightarrow> string" where
  "join_slash [] = []"
| "join_slash [x] = x"
| "join_slash (x # y # ys) = x @ ''/'' @ join_slash (y # ys)"

definition prefix_crumbs :: "string \<Rightarrow> string list" where
  "prefix_crumbs p = filter (\<lambda>seg. seg \<noteq> []) (split_slash p)"

definition onClick_breadcrumb ::
  "'w service \<Rightarrow> nat \<Rightarrow> app_state \<Rightarrow> 'w world \<Rightarrow> app_state \<times> 'w world" where
  "onClick_breadcrumb srv i st w =
     (if i = 0 then
        useEffect_fetchObjects srv st (st\<lparr>selectedBucket := None, prefix := []\<rparr>) w
      else if i = 1 then
        useEffect_fetchObjects srv st (st\<lparr>prefix := []\<rparr>) w
      else
        useEffect_fetchObjects srv st
          (st\<lparr>prefix := join_slash (take (i - 1) (prefix_crumbs (prefix st))) @ ''/''\<rparr>) w)"

section \<open>Session: connecting, testing, disconnecting\<close>

definition new_S3Client :: "string \<Rightarrow> string \<Rightarrow> string \<Rightarrow> S3Client" where
  "new_S3Client ep ak sk =
     \<lparr>cfg_endpoint = ep, cfg_region = ''us-east-1'', cfg_accessKeyId = ak,
      cfg_secretAccessKey = sk, cfg_forcePathStyle = True\<rparr>"

text \<open>\<open>xs.findIndex(p)\<close>; JavaScript's \<open>-1\<close> is \<open>None\<close>.\<close>

fun findIndex :: "('a \<Rightarrow> bool) \<Rightarrow> 'a list \<Rightarrow> nat option" where
  "findIndex p [] = None"
| "findIndex p (x # xs) =
     (if p x then Some 0 else map_option Suc (findIndex p xs))"

text \<open>
  Lines 278 to 288: the connection is stored under its name, replacing the entry of
  that name (which keeps its identifier) or appended with \<open>Date.now()\<close> as identifier.
\<close>

definition save_connection :: "nat \<Rightarrow> saveConfig \<Rightarrow> app_state \<Rightarrow> app_state" where
  "save_connection now cfg st =
     (let saved = savedConnections st;
          st1 =
            (case findIndex (\<lambda>c. conn_name c = conn_name cfg) saved of
               Some existingIndex \<Rightarrow>
                 st\<lparr>savedConnections :=
                      saved[existingIndex :=
                        saveConfig.extend cfg \<lparr>conn_id = conn_id (saved ! existingIndex)\<rparr>]\<rparr>
             | None \<Rightarrow>
                 st\<lparr>savedConnections := saved @ [saveConfig.extend cfg \<lparr>conn_id = now\<rparr>]\<rparr>)
      in showAlert (''Connection '' @ [CHR 0x22] @ conn_name cfg @ [CHR 0x22] @ '' saved!'') ''success'' st1)"

text \<open>
  \<open>handleConnect(connectionDetails, saveConfig)\<close>, lines 268 to 294. The connection
  is validated by one \<open>ListBucketsCommand\<close>; a rejection is caught and reported with
  the error's name. \<open>now\<close> is the reading of \<open>Date.now()\<close>. The effects that a
  stored client triggers afterwards (\<open>fetchBuckets\<close>, \<open>fetchObjects\<close>) are steps of
  their own.
\<close>

definition handleConnect ::
  "'w service \<Rightarrow> nat \<Rightarrow> connectionDetails \<Rightarrow> saveConfig option \<Rightarrow> app_state \<Rightarrow> 'w world
     \<Rightarrow> app_state \<times> 'w world" where
  "handleConnect srv now details cfg st w =
     (let client = new_S3Client (endpoint details) (accessKey details) (secretKey details)
      in (case send srv client ListBucketsCommand w of
            (Inr out, w') \<Rightarrow>
              ((case cfg of None \<Rightarrow> st | Some c \<Rightarrow> save_connection now c st)
                 \<lparr>s3Client := Some client\<rparr>, w')
          | (Inl e, w') \<Rightarrow>
              (showAlert (''Connection failed: '' @ error_name e @ ''.'') ''error'' st, w')))"

text \<open>
  \<open>handleTestConnection\<close> of the connection form, lines 108 to 131. Its result is the
  \<open>testResult\<close> object, which has the fields of a notification. \<open>errorMessage\<close> is
  the text built in the \<open>catch\<close> block, lines 121 to 126.
\<close>

definition errorMessage :: "error \<Rightarrow> string" where
  "errorMessage e =
     ''Error: '' @ error_name e @ ''. '' @
     (if error_name e = ''NetworkError''
      then ''This could be a CORS issue. Please check your Minio server's CORS configuration.''
      else ''Check your credentials and endpoint URL.'')"

definition handleTestConnection ::
  "'w service \<Rightarrow> connectionDetails \<Rightarrow> 'w world \<Rightarrow> alert \<times> 'w world" where
  "handleTestConnection srv details w =
     (let client = new_S3Client (endpoint details) (accessKey details) (secretKey details)
      in (case send srv client ListBucketsCommand w of
            (Inr out, w') \<Rightarrow>
              (\<lparr>message = ''Success! Connection is working.'', type = ''success''\<rparr>, w')
          | (Inl e, w') \<Rightarrow> (\<lparr>message = errorMessage e, type = ''error''\<rparr>, w')))"

text \<open>\<open>handleDisconnect\<close>, lines 296 to 305.\<close>

definition handleDisconnect :: "app_state \<Rightarrow> app_state" where
  "handleDisconnect st =
     showAlert ''Disconnected.'' ''info''
       (st\<lparr>s3Client := None, buckets := [], selectedBucket := None, objects := [],
           prefix := [], selectedItems := [], searchQuery := []\<rparr>)"

text \<open>\<open>fetchBuckets\<close>, lines 307 to 318.\<close>

definition fetchBuckets :: "'w service \<Rightarrow> app_state \<Rightarrow> 'w world \<Rightarrow> app_state \<times> 'w world" where
  "fetchBuckets srv st w =
     (case s3Client st of
        None \<Rightarrow> (st, w)
      | Some client \<Rightarrow>
          (case send srv client ListBucketsCommand w of
             (Inr out, w') \<Rightarrow>
               (st\<lparr>buckets := or_empty (Buckets out), isLoadingBuckets := False\<rparr>, w')
           | (Inl e, w') \<Rightarrow>
               ((showAlert ''Could not fetch buckets.'' ''error'' st)
                  \<lparr>isLoadingBuckets := False\<rparr>, w')))"

section \<open>Upload tracker\<close>

text \<open>
  A number printed by a template literal: its decimal digits.
\<close>

function show_nat :: "nat \<Rightarrow> string" where
  "show_nat n =
     (if n < 10 then [char_of (48 + n)]
      else show_nat (n div 10) @ [char_of (48 + n mod 10)])"
  by pat_completeness auto
termination
  by (relation "measure (\<lambda>n. n)") auto

declare show_nat.simps [simp del]

text \<open>
  The argument of an \<open>httpUploadProgress\<close> callback: \<open>loaded\<close> bytes out of
  \<open>total\<close>, where \<open>total\<close> is \<open>undefined\<close> while the size of the body is unknown.
\<close>

record progress_info =
  loaded :: nat
  total :: "nat option"

text \<open>
  JavaScript numbers are IEEE 754 binary64 values, and line 354 computes the quotient
  and the product in that arithmetic: each of the two results is the exact one rounded
  to the nearest double, a tie to the double whose significand is even. A double is a
  rational number, so the model rounds a rational number to 53 significant bits. The
  byte counts of a callback are integers that are doubles themselves, as every integer
  below \<open>2^53\<close> is; with such counts neither result leaves the range of the normal
  doubles, and the model does not bound the exponent.
\<close>

text \<open>The nearest integer, a tie to the even one.\<close>

definition round_half_even :: "rat \<Rightarrow> int" where
  "round_half_even y =
     (let f = \<lfloor>y\<rfloor>; r = y - of_int f
      in if r < 1 / 2 then f else if 1 / 2 < r then f + 1 else if even f then f else f + 1)"

text \<open>
  The binary exponent \<open>e\<close> of a positive rational \<open>x\<close>: \<open>2^e \<le> x < 2^(e + 1)\<close>. The
  difference of the bit lengths of numerator and denominator is \<open>e\<close> or \<open>e + 1\<close>.
\<close>

definition exponent :: "rat \<Rightarrow> int" where
  "exponent x =
     (case quotient_of x of
        (a, b) \<Rightarrow> (let d = bitlen a - bitlen b in if 2 powi d \<le> x then d else d - 1))"

text \<open>
  The double nearest to \<open>x\<close>: the significand is \<open>x\<close> in units of the last of its 53
  bits, rounded to an integer.
\<close>

definition to_double :: "rat \<Rightarrow> rat" where
  "to_double x =
     (if x = 0 then 0
      else let ulp = 2 powi (exponent \<bar>x\<bar> - 52)
           in ulp * of_int (round_half_even (x / ulp)))"

text \<open>
  \<open>Math.round\<close> gives the integer nearest to a double, a half upwards; the result is
  exact.
\<close>

definition Math_round :: "rat \<Rightarrow> int" where
  "Math_round x = \<lfloor>x + 1 / 2\<rfloor>"

text \<open>
  Line 354; \<open>progress.total\<close> is falsy when it is \<open>undefined\<close> or \<open>0\<close>. Otherwise
  \<open>progress.loaded / progress.total\<close> is rounded to a double, the product of that
  double and \<open>100\<close> is rounded to a double, and \<open>Math.round\<close> is applied to the latter.
\<close>

definition percent :: "progress_info \<Rightarrow> int" where
  "percent pr =
     (case total pr of
        None \<Rightarrow> 0
      | Some t \<Rightarrow>
          if t = 0 then 0
          else Math_round (to_double (to_double (of_nat (loaded pr) / of_nat t) * 100)))"

text \<open>Line 355: the callback rewrites the progress of the task with its identifier.\<close>

definition on_httpUploadProgress :: "string \<Rightarrow> progress_info \<Rightarrow> upload_task list \<Rightarrow> upload_task list" where
  "on_httpUploadProgress uploadId pr prev =
     map (\<lambda>f. if id' f = uploadId then f\<lparr>progress := percent pr\<rparr> else f) prev"

text \<open>
  The callbacks of one transfer, in the order they arrive: the value of
  \<open>uploadingFiles\<close> after each of them.
\<close>

fun run_callbacks :: "string \<Rightarrow> progress_info list \<Rightarrow> upload_task list \<Rightarrow> upload_task list list" where
  "run_callbacks uploadId [] prev = []"
| "run_callbacks uploadId (pr # prs) prev =
     (let cur = on_httpUploadProgress uploadId pr prev
      in cur # run_callbacks uploadId prs cur)"

text \<open>
  A selected local file, and what the environment contributes to its transfer: the
  reading of \<open>Date.now()\<close> at line 342 and the progress callbacks that arrive before
  \<open>done()\<close> settles. Whether \<open>done()\<close> resolves or rejects is the store's answer to
  the \<open>UploadCommand\<close>.
\<close>

record local_file =
  file_name :: string

record transfer =
  date_now :: nat
  callbacks :: "progress_info list"

text \<open>
  The loop of \<open>handleFileUpload\<close>, lines 341 to 366. The body awaits
  \<open>parallelUploads3.done()\<close> before the next iteration starts. The first component of
  the result lists the values \<open>uploadingFiles\<close> takes, one per \<open>setUploadingFiles\<close>
  call, oldest first. \<open>fetchObjects\<close> is started without \<open>await\<close> at line 360; the
  model runs it to its end there, which does not touch \<open>uploadingFiles\<close>.
\<close>

fun upload_loop ::
  "'w service \<Rightarrow> S3Client \<Rightarrow> string \<Rightarrow> string \<Rightarrow> (local_file \<times> transfer) list \<Rightarrow> app_state \<Rightarrow> 'w world
     \<Rightarrow> upload_task list list \<times> app_state \<times> 'w world" where
  "upload_loop srv client b pfx [] st w = ([], st, w)"
| "upload_loop srv client b pfx ((f, tr) # rest) st w =
     (let uploadId = file_name f @ ''-'' @ show_nat (date_now tr);
          key = pfx @ file_name f;
          started = uploadingFiles st @ [\<lparr>id' = uploadId, name = file_name f, progress = 0\<rparr>];
          updates = run_callbacks uploadId (callbacks tr) started;
          st1 = st\<lparr>uploadingFiles := last (started # updates)\<rparr>
      in (case send srv client (UploadCommand b key (file_name f)) w of
            (r, w1) \<Rightarrow>
              (case (case r of
                       Inr out \<Rightarrow>
                         fetchObjects srv (Some b) pfx
                           (showAlert (''File '' @ [CHR 0x22] @ file_name f @ [CHR 0x22] @
                              '' uploaded successfully.'') ''success'' st1) w1
                     | Inl err \<Rightarrow>
                         (showAlert (''Failed to upload '' @ [CHR 0x22] @ file_name f @ [CHR 0x22] @
                            ''.'') ''error'' st1, w1)) of
                 (st2, w2) \<Rightarrow>
                   (let settled = filter (\<lambda>t. id' t \<noteq> uploadId) (uploadingFiles st2)
                    in (case upload_loop srv client b pfx rest (st2\<lparr>uploadingFiles := settled\<rparr>) w2 of
                          (trace, st', w') \<Rightarrow>
                            (started # updates @ settled # trace, st', w'))))))"

text \<open>\<open>handleFileUpload(files)\<close>, lines 338 to 367, with the guard of line 339.\<close>

definition handleFileUpload ::
  "'w service \<Rightarrow> (local_file \<times> transfer) list \<Rightarrow> app_state \<Rightarrow> 'w world
     \<Rightarrow> upload_task list list \<times> app_state \<times> 'w world" where
  "handleFileUpload srv files st w =
     (case s3Client st of
        None \<Rightarrow> ([], st, w)
      | Some client \<Rightarrow>
          (case selectedBucket st of
             None \<Rightarrow> ([], st, w)
           | Some b \<Rightarrow>
               if b = [] \<or> files = [] then ([], st, w)
               else upload_loop srv client b (prefix st) files st w))"

text \<open>
  Three notions used to state what the loop does. \<open>is_upload\<close> picks the upload
  commands out of the commands sent, \<open>upload_command\<close> is the command the loop
  sends for a file (line 350: the key is the prefix followed by the file's name), and
  \<open>task_trajectory\<close> lists the values \<open>uploadingFiles\<close> takes while one file is
  transferred with no other task tracked: the new task with progress 0, the task
  after each of the file's callbacks, and the empty list once the task is removed.
\<close>

fun is_upload :: "command \<Rightarrow> bool" where
  "is_upload (UploadCommand b k body) = True"
| "is_upload c = False"

definition upload_command :: "string \<Rightarrow> string \<Rightarrow> local_file \<times> transfer \<Rightarrow> command" where
  "upload_command b pfx ft = UploadCommand b (pfx @ file_name (fst ft)) (file_name (fst ft))"

definition task_trajectory :: "local_file \<times> transfer \<Rightarrow> upload_task list list" where
  "task_trajectory ft =
     (case ft of (f, tr) \<Rightarrow>
        (let t = \<lparr>id' = file_name f @ ''-'' @ show_nat (date_now tr), name = file_name f, progress = 0\<rparr>
         in [t] # map (\<lambda>pr. [t\<lparr>progress := percent pr\<rparr>]) (callbacks tr) @ [[]]))"

section \<open>Recursive key resolver and bulk delete orchestrator\<close>

text \<open>
  \<open>getAllKeysInPrefix\<close>, lines 373 to 383. The \<open>do ... while\<close> loop runs as long as
  the store hands out a truthy continuation token, so it need not end: \<open>None\<close> is
  the run that never returns. A rejected request is not caught here; it ends the loop
  with the error.
\<close>

partial_function (option) getAllKeysInPrefix_loop ::
  "'w service \<Rightarrow> S3Client \<Rightarrow> string \<Rightarrow> string \<Rightarrow> string list \<Rightarrow> string option \<Rightarrow> 'w world
     \<Rightarrow> ((error + string list) \<times> 'w world) option" where
  "getAllKeysInPrefix_loop srv client b prefixToDelete keys continuationToken w =
     (case send srv client (ListObjectsV2Command b prefixToDelete None continuationToken) w of
        (Inl err, w') \<Rightarrow> Some (Inl err, w')
      | (Inr resp, w') \<Rightarrow>
          (let keys' = (case Contents resp of None \<Rightarrow> keys | Some cs \<Rightarrow> keys @ map Key cs)
           in if truthy (NextContinuationToken resp)
              then getAllKeysInPrefix_loop srv client b prefixToDelete keys'
                     (NextContinuationToken resp) w'
              else Some (Inr keys', w')))"

declare getAllKeysInPrefix_loop.simps [code]

definition getAllKeysInPrefix ::
  "'w service \<Rightarrow> S3Client \<Rightarrow> string \<Rightarrow> string \<Rightarrow> 'w world
     \<Rightarrow> ((error + string list) \<times> 'w world) option" where
  "getAllKeysInPrefix srv client b prefixToDelete w =
     getAllKeysInPrefix_loop srv client b prefixToDelete [] None w"

text \<open>
  The loop over the selection, lines 385 to 391: a key that ends in \<open>/\<close> contributes
  the keys listed under it, any other key contributes itself.
\<close>

fun resolve_loop ::
  "'w service \<Rightarrow> S3Client \<Rightarrow> string \<Rightarrow> string list \<Rightarrow> string list \<Rightarrow> 'w world
     \<Rightarrow> ((error + string list) \<times> 'w world) option" where
  "resolve_loop srv client b [] allKeysToDelete w = Some (Inr allKeysToDelete, w)"
| "resolve_loop srv client b (key # rest) allKeysToDelete w =
     (if endsWith key ''/'' then
        (case getAllKeysInPrefix srv client b key w of
           None \<Rightarrow> None
         | Some (Inl err, w') \<Rightarrow> Some (Inl err, w')
         | Some (Inr ks, w') \<Rightarrow> resolve_loop srv client b rest (allKeysToDelete @ ks) w')
      else resolve_loop srv client b rest (allKeysToDelete @ [key]) w)"

text \<open>
  Lines 372 to 393: the resolved key set is the selection's keys collected by the
  loop, with duplicates removed.
\<close>

definition resolveKeys ::
  "'w service \<Rightarrow> S3Client \<Rightarrow> string \<Rightarrow> string list \<Rightarrow> 'w world
     \<Rightarrow> ((error + string list) \<times> 'w world) option" where
  "resolveKeys srv client b items w =
     (case resolve_loop srv client b items [] w of
        None \<Rightarrow> None
      | Some (Inl err, w') \<Rightarrow> Some (Inl err, w')
      | Some (Inr ks, w') \<Rightarrow> Some (Inr (new_Set ks), w'))"

text \<open>
  \<open>handleDeleteSelected\<close>, lines 369 to 409. The result is \<open>None\<close> when a listing
  never ends, \<open>Inl\<close> when a listing is rejected (nothing catches it, the handler's
  promise rejects and the state is as before), and \<open>Inr ()\<close> when the handler returns.
  The \<open>finally\<close> block closes the dialog and starts \<open>fetchObjects\<close>, which the model
  runs to its end.
\<close>

definition handleDeleteSelected ::
  "'w service \<Rightarrow> app_state \<Rightarrow> 'w world \<Rightarrow> ((error + unit) \<times> app_state \<times> 'w world) option" where
  "handleDeleteSelected srv st w =
     (case s3Client st of
        None \<Rightarrow> Some (Inr (), st, w)
      | Some client \<Rightarrow>
          (case selectedBucket st of
             None \<Rightarrow> Some (Inr (), st, w)
           | Some b \<Rightarrow>
               if b = [] \<or> selectedItems st = [] then Some (Inr (), st, w)
               else
                 (case resolveKeys srv client b (selectedItems st) w of
                    None \<Rightarrow> None
                  | Some (Inl err, w1) \<Rightarrow> Some (Inl err, st, w1)
                  | Some (Inr allKeysToDelete, w1) \<Rightarrow>
                      if allKeysToDelete = [] then
                        Some (Inr (), st\<lparr>isDeleteModalOpen := False\<rparr>, w1)
                      else
                        (case send srv client (DeleteObjectsCommand b allKeysToDelete) w1 of
                           (r, w2) \<Rightarrow>
                             (let st1 =
                                    (case r of
                                       Inr out \<Rightarrow>
                                         showAlert (show_nat (length allKeysToDelete) @
                                           '' item(s) deleted successfully.'') ''success'' st
                                     | Inl err \<Rightarrow>
                                         showAlert ''Failed to delete items.'' ''error'' st)
                              in (case fetchObjects srv (Some b) (prefix st)
                                         (st1\<lparr>isDeleteModalOpen := False\<rparr>) w2 of
                                    (st2, w3) \<Rightarrow> Some (Inr (), st2, w3)))))))"

text \<open>The keys of every \<open>DeleteObjectsCommand\<close> among the commands sent.\<close>

fun delete_requests :: "command list \<Rightarrow> string list list" where
  "delete_requests [] = []"
| "delete_requests (DeleteObjectsCommand b ks # cs) = ks # delete_requests cs"
| "delete_requests (c # cs) = delete_requests cs"

section \<open>The spec's description of the resolver and of the batches\<close>

text \<open>
  The spec describes the resolver by what the store returns: the pages of a flat
  listing under a prefix, fetched one after the other until the store returns no
  continuation token. \<open>listing_pages\<close> follows these words: it relates a starting
  token and world to the key lists of the pages the store returns from there, and to
  the world after the last page. \<open>selection_pages\<close> does the same for a whole
  selection: a file key stands for one page that holds the key itself, a folder
  prefix for the pages listed under it. Both are compared below with
  \<open>getAllKeysInPrefix\<close> and \<open>resolveKeys\<close>, which come from the source.
\<close>

inductive listing_pages ::
  "'w service \<Rightarrow> S3Client \<Rightarrow> string \<Rightarrow> string \<Rightarrow> string option \<Rightarrow> 'w world
     \<Rightarrow> string list list \<Rightarrow> 'w world \<Rightarrow> bool"
  for srv client b p where
  last_page:
    "send srv client (ListObjectsV2Command b p None tok) w = (Inr resp, w') \<Longrightarrow>
     \<not> truthy (NextContinuationToken resp) \<Longrightarrow>
     page = map Key (or_empty (Contents resp)) \<Longrightarrow>
     listing_pages srv client b p tok w [page] w'"
| next_page:
    "send srv client (ListObjectsV2Command b p None tok) w = (Inr resp, w1) \<Longrightarrow>
     truthy (NextContinuationToken resp) \<Longrightarrow>
     page = map Key (or_empty (Contents resp)) \<Longrightarrow>
     listing_pages srv client b p (NextContinuationToken resp) w1 pages w' \<Longrightarrow>
     listing_pages srv client b p tok w (page # pages) w'"

inductive selection_pages ::
  "'w service \<Rightarrow> S3Client \<Rightarrow> string \<Rightarrow> string list \<Rightarrow> 'w world
     \<Rightarrow> string list list list \<Rightarrow> 'w world \<Rightarrow> bool"
  for srv client b where
  no_item: "selection_pages srv client b [] w [] w"
| file_item:
    "\<not> endsWith k ''/'' \<Longrightarrow> selection_pages srv client b ks w pss w' \<Longrightarrow>
     selection_pages srv client b (k # ks) w ([[k]] # pss) w'"
| folder_item:
    "endsWith k ''/'' \<Longrightarrow> listing_pages srv client b k None w pages w1 \<Longrightarrow>
     selection_pages srv client b ks w1 pss w' \<Longrightarrow>
     selection_pages srv client b (k # ks) w (pages # pss) w'"

text \<open>
  The batches the spec asks the delete orchestrator for: the key list cut into
  consecutive chunks of at most \<open>n\<close> keys. The source has no such function; it is
  here to state what the claim about batching expects.
\<close>

function spec_chunks :: "nat \<Rightarrow> 'a list \<Rightarrow> 'a list list" where
  "spec_chunks n xs =
     (if n = 0 \<or> xs = [] then [] else take n xs # spec_chunks n (drop n xs))"
  by pat_completeness auto
termination
  by (relation "measure (\<lambda>(n, xs). length xs)") auto

declare spec_chunks.simps [simp del]

section \<open>A reference store\<close>

text \<open>
  Modelled from the spec: the S3-compatible object store, which is an external service
  and not code of the repository. It holds one bucket with a flat list of keys. A
  listing without delimiter returns the keys that start with the requested prefix, in
  stored order, one page per request; the store chooses where each page ends
  (\<open>ref_cuts\<close> holds the sizes, less one, of the pages still to be cut; once it is
  used up a page takes all that is left), and a continuation token encodes how many
  keys the earlier pages held. A listing with a delimiter returns in one page the
  keys with no further \<open>/\<close> after the prefix and the common prefixes of the others.
\<close>

record ref_store =
  ref_bucket :: string
  ref_keys :: "string list"
  ref_cuts :: "nat list"

definition empty_response :: response where
  "empty_response =
     \<lparr>Buckets = None, Contents = None, CommonPrefixes = None, NextContinuationToken = None\<rparr>"

definition mk_object :: "string \<Rightarrow> s3_object" where
  "mk_object k = \<lparr>Key = k, Size = None, LastModified = None\<rparr>"

definition token_offset :: "string option \<Rightarrow> nat" where
  "token_offset tok = (case tok of None \<Rightarrow> 0 | Some t \<Rightarrow> length t)"

definition ref_flat_list :: "ref_store \<Rightarrow> string \<Rightarrow> string option \<Rightarrow> response \<times> ref_store" where
  "ref_flat_list s p tok =
     (let off = token_offset tok;
          rest = drop off (filter (\<lambda>k. startsWith k p) (ref_keys s));
          n = (case ref_cuts s of [] \<Rightarrow> length rest | c # cs \<Rightarrow> Suc c)
      in (empty_response
            \<lparr>Contents := (if take n rest = [] then None else Some (map mk_object (take n rest))),
             NextContinuationToken :=
               (if drop n rest = [] then None else Some (replicate (off + n) CHR ''t''))\<rparr>,
          s\<lparr>ref_cuts := tl (ref_cuts s)\<rparr>))"

definition ref_delimited_list :: "ref_store \<Rightarrow> string \<Rightarrow> response" where
  "ref_delimited_list s p =
     (let matching = filter (\<lambda>k. startsWith k p) (ref_keys s);
          leaves = filter (\<lambda>k. CHR ''/'' \<notin> set (drop (length p) k)) matching;
          nested = filter (\<lambda>k. CHR ''/'' \<in> set (drop (length p) k)) matching;
          groups =
            new_Set (map (\<lambda>k. p @ takeWhile (\<lambda>c. c \<noteq> CHR ''/'') (drop (length p) k) @ ''/'') nested)
      in empty_response
           \<lparr>Contents := (if leaves = [] then None else Some (map mk_object leaves)),
            CommonPrefixes :=
              (if groups = [] then None else Some (map (\<lambda>g. \<lparr>Prefix = g\<rparr>) groups))\<rparr>)"

fun ref_service :: "ref_store service" where
  "ref_service s client ListBucketsCommand =
     (Inr (empty_response\<lparr>Buckets := Some [\<lparr>Name = ref_bucket s\<rparr>]\<rparr>), s)"
| "ref_service s client (ListObjectsV2Command b p delimiter tok) =
     (if b \<noteq> ref_bucket s then (Inl (Error ''NoSuchBucket''), s)
      else (case delimiter of
              None \<Rightarrow> (case ref_flat_list s p tok of (r, s') \<Rightarrow> (Inr r, s'))
            | Some d \<Rightarrow> (Inr (ref_delimited_list s p), s)))"
| "ref_service s client (DeleteObjectsCommand b ks) =
     (if b \<noteq> ref_bucket s then (Inl (Error ''NoSuchBucket''), s)
      else (Inr empty_response, s\<lparr>ref_keys := filter (\<lambda>k. k \<notin> set ks) (ref_keys s)\<rparr>))"
| "ref_service s client (UploadCommand b k body) =
     (if b \<noteq> ref_bucket s then (Inl (Error ''NoSuchBucket''), s)
      else (Inr empty_response,
            s\<lparr>ref_keys := (if k \<in> set (ref_keys s) then ref_keys s else ref_keys s @ [k])\<rparr>))"

text \<open>
  How the reference store cuts a key list into pages, and what a selected key
  contributes to the resolved keys when the stored keys are \<open>stored\<close>.
\<close>

fun cut_pages :: "nat list \<Rightarrow> 'a list \<Rightarrow> 'a list list" where
  "cut_pages [] xs = [xs]"
| "cut_pages (c # cs) xs =
     (if length xs \<le> Suc c then [xs] else take (Suc c) xs # cut_pages cs (drop (Suc c) xs))"

definition contribution :: "string list \<Rightarrow> string \<Rightarrow> string list" where
  "contribution stored k = (if endsWith k ''/'' then filter (\<lambda>x. startsWith x k) stored else [k])"

text \<open>A store that rejects the commands picked out by \<open>P\<close> and otherwise answers as \<open>srv\<close>.\<close>

definition rejecting :: "(command \<Rightarrow> bool) \<Rightarrow> error \<Rightarrow> 'w service \<Rightarrow> 'w service" where
  "rejecting P err srv s client cmd = (if P cmd then (Inl err, s) else srv s client cmd)"

fun is_delete :: "command \<Rightarrow> bool" where
  "is_delete (DeleteObjectsCommand b ks) = True"
| "is_delete c = False"

fun is_upload_of :: "string \<Rightarrow> command \<Rightarrow> bool" where
  "is_upload_of k (UploadCommand b k' body) = (k' = k)"
| "is_upload_of k c = False"

subsection \<open>States used in the examples\<close>

definition example_client :: S3Client where
  "example_client = new_S3Client ''http://127.0.0.1:9000'' ''minioadmin'' ''minioadmin''"

text \<open>The initial values of the \<open>useState\<close> cells, lines 253 to 264.\<close>

definition initial_state :: app_state where
  "initial_state =
     \<lparr>s3Client = None, buckets = [], selectedBucket = None, objects = [], prefix = [],
      isLoadingBuckets = False, isLoadingObjects = False, uploadingFiles = [],
      selectedItems = [], isDeleteModalOpen = False, searchQuery = [],
      savedConnections = [], alertData = None\<rparr>"

definition file_entry :: "string \<Rightarrow> object_entry" where
  "file_entry k = \<lparr>Key = k, Size = None, LastModified = None, isFolder = False\<rparr>"

definition folder_entry :: "string \<Rightarrow> object_entry" where
  "folder_entry k = \<lparr>Key = k, Size = None, LastModified = None, isFolder = True\<rparr>"

text \<open>
  Connected, looking at the root of bucket \<open>photos\<close>, which holds \<open>a/\<close> (a folder
  marker), \<open>a/1\<close>, \<open>a/2\<close>, \<open>a/sub/3\<close> and \<open>x\<close>.
\<close>

definition photos_store :: "nat list \<Rightarrow> ref_store" where
  "photos_store cuts =
     \<lparr>ref_bucket = ''photos'', ref_keys = [''a/'', ''a/1'', ''a/2'', ''a/sub/3'', ''x''],
      ref_cuts = cuts\<rparr>"

definition photos_world :: "nat list \<Rightarrow> ref_store world" where
  "photos_world cuts = \<lparr>store = photos_store cuts, sent = []\<rparr>"

definition photos_state :: app_state where
  "photos_state =
     initial_state
       \<lparr>s3Client := Some example_client, buckets := [\<lparr>Name = ''photos''\<rparr>, \<lparr>Name = ''gone''\<rparr>],
        selectedBucket := Some ''photos'', objects := [folder_entry ''a/'', file_entry ''x'']\<rparr>"

text \<open>
  Two stores that reject every command, one as a browser does when the request is
  blocked at the network layer, one as the store does for an unknown access key.
\<close>

definition net_down :: "ref_store service" where
  "net_down = rejecting (\<lambda>c. True) (Error ''NetworkError'') ref_service"

definition bad_key :: "ref_store service" where
  "bad_key = rejecting (\<lambda>c. True) (Error ''InvalidAccessKeyId'') ref_service"

definition local_details :: connectionDetails where
  "local_details =
     \<lparr>endpoint = ''http://127.0.0.1:9000'', accessKey = ''minioadmin'', secretKey = ''minioadmin''\<rparr>"

text \<open>A store that rejects every delete request and otherwise answers as the reference store.\<close>

definition slow_down :: "ref_store service" where
  "slow_down = rejecting is_delete (Error ''SlowDown'') ref_service"

text \<open>
  Two files picked for upload, with the clock readings and progress callbacks of their
  transfers, and a store that rejects the upload of \<open>A\<close>.
\<close>

definition two_files :: "(local_file \<times> transfer) list" where
  "two_files =
     [(\<lparr>file_name = ''A''\<rparr>,
       \<lparr>date_now = 5, callbacks = [\<lparr>loaded = 1, total = Some 2\<rparr>, \<lparr>loaded = 2, total = Some 2\<rparr>]\<rparr>),
      (\<lparr>file_name = ''B''\<rparr>, \<lparr>date_now = 17, callbacks = [\<lparr>loaded = 3, total = Some 3\<rparr>]\<rparr>)]"

definition upload_of_A_fails :: "ref_store service" where
  "upload_of_A_fails = rejecting (is_upload_of ''A'') (Error ''NetworkingError'') ref_service"

section \<open>Properties of the namespace navigator\<close>

lemma fetchObjects_listed:
  assumes "s3Client st = Some client" and "b \<noteq> []"
    and "send srv client (ListObjectsV2Command b p (Some ''/'') None) w = (Inr out, w')"
  shows "fetchObjects srv (Some b) p st w =
     (st\<lparr>isLoadingObjects := False, selectedItems := [], searchQuery := [],
         objects := folders_of out @ files_of out p\<rparr>, w')"
  using assms by (simp add: fetchObjects_def)

lemma fetchObjects_rejected:
  assumes "s3Client st = Some client" and "b \<noteq> []"
    and "send srv client (ListObjectsV2Command b p (Some ''/'') None) w = (Inl err, w')"
  shows "fetchObjects srv (Some b) p st w =
     (st\<lparr>isLoadingObjects := False, selectedItems := [], searchQuery := [],
         alertData :=
           Some \<lparr>message = ''Could not list objects in '' @ b @ ''.'', type = ''error''\<rparr>\<rparr>, w')"
  using assms by (simp add: fetchObjects_def showAlert_def)

lemma files_of_not_prefix: "e \<in> set (files_of out p) \<Longrightarrow> Key e \<noteq> p"
  by (auto simp: files_of_def s3_object.extend_def)

lemma folders_of_isFolder: "e \<in> set (folders_of out) \<Longrightarrow> isFolder e"
  by (auto simp: folders_of_def)

lemma photos_state_client: "s3Client photos_state = Some example_client"
  by (simp add: photos_state_def initial_state_def)

lemma send_gone_rejected:
  "send ref_service example_client (ListObjectsV2Command ''gone'' [] (Some ''/'') None)
     (photos_world []) =
   (Inl (Error ''NoSuchBucket''),
    \<lparr>store = photos_store [], sent = [ListObjectsV2Command ''gone'' [] (Some ''/'') None]\<rparr>)"
  by (simp add: send_def photos_world_def photos_store_def)

text \<open>
  C9. Whenever \<open>fetchObjects\<close> lists prefix \<open>p\<close> of a bucket and the store answers,
  no file entry of the listing it stores has the key \<open>p\<close>: an object stored at the
  prefix itself (a folder marker) is left out of the file entries.
\<close>

theorem fetchObjects_excludes_prefix_marker:
  assumes "s3Client st = Some client" and "b \<noteq> []"
    and "fst (send srv client (ListObjectsV2Command b p (Some ''/'') None) w) = Inr out"
  shows "\<forall>e \<in> set (objects (fst (fetchObjects srv (Some b) p st w))).
           \<not> isFolder e \<longrightarrow> Key e \<noteq> p"
proof -
  obtain w' where "send srv client (ListObjectsV2Command b p (Some ''/'') None) w = (Inr out, w')"
    using assms(3) by (cases "send srv client (ListObjectsV2Command b p (Some ''/'') None) w") auto
  from fetchObjects_listed[OF assms(1,2) this]
  show ?thesis by (auto dest: files_of_not_prefix folders_of_isFolder)
qed

text \<open>
  The listing of prefix \<open>a/\<close> of the reference bucket, where the marker \<open>a/\<close> is
  stored: the store returns the marker among the objects, the listing shows the
  folder \<open>a/sub/\<close> and the files \<open>a/1\<close> and \<open>a/2\<close> only.
\<close>

theorem fetchObjects_excludes_prefix_marker_witness:
  "or_empty (Contents (ref_delimited_list (photos_store []) ''a/'')) =
     [mk_object ''a/'', mk_object ''a/1'', mk_object ''a/2'']
   \<and> objects (fst (fetchObjects ref_service (Some ''photos'') ''a/'' photos_state (photos_world []))) =
     [folder_entry ''a/sub/'', file_entry ''a/1'', file_entry ''a/2'']
   \<and> list_all (\<lambda>e. isFolder e \<or> Key e \<noteq> ''a/'')
       (objects (fst (fetchObjects ref_service (Some ''photos'') ''a/'' photos_state (photos_world []))))"
proof -
  have sent: "fst (send ref_service example_client (ListObjectsV2Command ''photos'' ''a/'' (Some ''/'') None)
      (photos_world [])) = Inr (ref_delimited_list (photos_store []) ''a/'')"
    by (simp add: send_def photos_world_def photos_store_def)
  have "''photos'' \<noteq> []" by simp
  from fetchObjects_excludes_prefix_marker[OF photos_state_client this sent]
  have "list_all (\<lambda>e. isFolder e \<or> Key e \<noteq> ''a/'')
       (objects (fst (fetchObjects ref_service (Some ''photos'') ''a/'' photos_state (photos_world []))))"
    by (auto simp: list_all_iff)
  moreover have "or_empty (Contents (ref_delimited_list (photos_store []) ''a/'')) =
     [mk_object ''a/'', mk_object ''a/1'', mk_object ''a/2'']"
    by code_simp
  moreover have "objects (fst (fetchObjects ref_service (Some ''photos'') ''a/'' photos_state (photos_world []))) =
     [folder_entry ''a/sub/'', file_entry ''a/1'', file_entry ''a/2'']"
    by code_simp
  ultimately show ?thesis by simp
qed

text \<open>
  C3, as stated, fails. The listing of bucket \<open>photos\<close> is on display; the user
  clicks bucket \<open>gone\<close>, whose listing the store rejects. Afterwards the selected
  bucket is \<open>gone\<close> and \<open>objects\<close> still holds the entries fetched from \<open>photos\<close>.
\<close>

theorem failed_listing_keeps_previous_entries_counterexample:
  "objects (fst (fetchObjects ref_service (Some ''photos'') [] photos_state (photos_world [])))
     = [folder_entry ''a/'', file_entry ''x'']
   \<and> objects photos_state = [folder_entry ''a/'', file_entry ''x'']
   \<and> selectedBucket (fst (onClick_bucket ref_service \<lparr>Name = ''gone''\<rparr> photos_state (photos_world [])))
     = Some ''gone''
   \<and> objects (fst (onClick_bucket ref_service \<lparr>Name = ''gone''\<rparr> photos_state (photos_world [])))
     = [folder_entry ''a/'', file_entry ''x'']"
  by code_simp

text \<open>
  C3, amended. When the store rejects the listing that \<open>fetchObjects\<close> requests, the
  handler raises the notification \<open>Could not list objects in <bucket>.\<close>, clears the
  selection and the search query and resets the loading flag; it leaves \<open>objects\<close> (and
  every other cell) as it was, so the entries fetched before stay in the listing state.
\<close>

theorem failed_listing_fallback_state:
  assumes "s3Client st = Some client" and "b \<noteq> []"
    and "send srv client (ListObjectsV2Command b p (Some ''/'') None) w = (Inl err, w')"
  shows "fetchObjects srv (Some b) p st w =
     (st\<lparr>isLoadingObjects := False, selectedItems := [], searchQuery := [],
         alertData :=
           Some \<lparr>message = ''Could not list objects in '' @ b @ ''.'', type = ''error''\<rparr>\<rparr>, w')
   \<and> objects (fst (fetchObjects srv (Some b) p st w)) = objects st"
  using fetchObjects_rejected[OF assms] by simp

theorem failed_listing_fallback_state_witness:
  "fetchObjects ref_service (Some ''gone'') [] photos_state (photos_world []) =
     (photos_state\<lparr>isLoadingObjects := False, selectedItems := [], searchQuery := [],
         alertData := Some \<lparr>message = ''Could not list objects in gone.'', type = ''error''\<rparr>\<rparr>,
      \<lparr>store = photos_store [], sent = [ListObjectsV2Command ''gone'' [] (Some ''/'') None]\<rparr>)
   \<and> objects (fst (fetchObjects ref_service (Some ''gone'') [] photos_state (photos_world [])))
     = objects photos_state"
proof -
  have "''gone'' \<noteq> []" by simp
  from failed_listing_fallback_state[OF photos_state_client this send_gone_rejected]
  show ?thesis by simp
qed

text \<open>
  C4 fails on the code at the root breadcrumb. With \<open>x\<close> selected and the search
  query \<open>x\<close> typed in bucket \<open>photos\<close>, a click on the first breadcrumb clears the
  bucket, and the effect calls \<open>fetchObjects(null, '')\<close>, which returns at its guard
  before line 323: the selection and the query are still there.
\<close>

theorem root_breadcrumb_keeps_selection:
  "selectedBucket (fst (onClick_breadcrumb ref_service 0
       (photos_state\<lparr>selectedItems := [''x''], searchQuery := ''x''\<rparr>) (photos_world []))) = None
   \<and> selectedItems (fst (onClick_breadcrumb ref_service 0
       (photos_state\<lparr>selectedItems := [''x''], searchQuery := ''x''\<rparr>) (photos_world []))) = [''x'']
   \<and> searchQuery (fst (onClick_breadcrumb ref_service 0
       (photos_state\<lparr>selectedItems := [''x''], searchQuery := ''x''\<rparr>) (photos_world []))) = ''x''"
  by code_simp

text \<open>
  Every other change of the context does clear them: when the client is connected and
  the bucket or the prefix changes to a bucket with a non-empty name and any prefix,
  the effect runs \<open>fetchObjects\<close>, and the selection and the search query are empty
  afterwards, whether the store answers the listing or rejects it.
\<close>

theorem context_change_clears_selection:
  assumes "s3Client st \<noteq> None" and "b \<noteq> []"
    and "selectedBucket st \<noteq> Some b \<or> prefix st \<noteq> p"
  shows "selectedItems (fst (useEffect_fetchObjects srv st (st\<lparr>selectedBucket := Some b, prefix := p\<rparr>) w)) = []
       \<and> searchQuery (fst (useEffect_fetchObjects srv st (st\<lparr>selectedBucket := Some b, prefix := p\<rparr>) w)) = []"
proof -
  from assms(1) obtain client where c: "s3Client (st\<lparr>selectedBucket := Some b, prefix := p\<rparr>) = Some client"
    by auto
  obtain r w' where s: "send srv client (ListObjectsV2Command b p (Some ''/'') None) w = (r, w')"
    by (cases "send srv client (ListObjectsV2Command b p (Some ''/'') None) w")
  have run: "useEffect_fetchObjects srv st (st\<lparr>selectedBucket := Some b, prefix := p\<rparr>) w =
      fetchObjects srv (Some b) p (st\<lparr>selectedBucket := Some b, prefix := p\<rparr>) w"
    using assms(1,3) by (auto simp: useEffect_fetchObjects_def)
  show ?thesis
  proof (cases r)
    case (Inl e)
    with s fetchObjects_rejected[OF c assms(2), of srv p w e w'] run show ?thesis by simp
  next
    case (Inr out)
    with s fetchObjects_listed[OF c assms(2), of srv p w out w'] run show ?thesis by simp
  qed
qed

text \<open>A click on the folder \<open>a/\<close> with \<open>x\<close> selected and the query \<open>x\<close> typed.\<close>

theorem context_change_clears_selection_witness:
  "selectedItems (fst (onClick_entry ref_service (folder_entry ''a/'')
       (photos_state\<lparr>selectedItems := [''x''], searchQuery := ''x''\<rparr>) (photos_world []))) = []
   \<and> searchQuery (fst (onClick_entry ref_service (folder_entry ''a/'')
       (photos_state\<lparr>selectedItems := [''x''], searchQuery := ''x''\<rparr>) (photos_world []))) = []"
proof -
  let ?st = "photos_state\<lparr>selectedItems := [''x''], searchQuery := ''x''\<rparr>"
  have c: "s3Client ?st \<noteq> None" by (simp add: photos_state_def initial_state_def)
  have n: "''photos'' \<noteq> []" by simp
  have ch: "selectedBucket ?st \<noteq> Some ''photos'' \<or> prefix ?st \<noteq> ''a/''"
    by (simp add: photos_state_def initial_state_def)
  have same: "?st\<lparr>selectedBucket := Some ''photos'', prefix := ''a/''\<rparr> = ?st\<lparr>prefix := ''a/''\<rparr>"
    by (simp add: photos_state_def initial_state_def)
  from context_change_clears_selection[OF c n ch, of ref_service "photos_world []"] same
  show ?thesis by (simp add: onClick_entry_def folder_entry_def)
qed

section \<open>Properties of the session\<close>

lemma send_sent: "sent (snd (send srv client cmd w)) = sent w @ [cmd]"
  by (simp add: send_def split: prod.splits)

lemma send_world: "send srv client cmd w = (r, w') \<Longrightarrow> sent w' = sent w @ [cmd]"
  by (auto simp: send_def split: prod.splits)

lemma handleConnect_rejected:
  assumes "send srv (new_S3Client (endpoint d) (accessKey d) (secretKey d)) ListBucketsCommand w
             = (Inl e, w')"
  shows "handleConnect srv now d cfg st w =
     (st\<lparr>alertData :=
          Some \<lparr>message = ''Connection failed: '' @ error_name e @ ''.'', type = ''error''\<rparr>\<rparr>, w')"
  using assms by (simp add: handleConnect_def showAlert_def)

lemma handleConnect_sent:
  "sent (snd (handleConnect srv now d cfg st w)) = sent w @ [ListBucketsCommand]"
proof -
  let ?c = "new_S3Client (endpoint d) (accessKey d) (secretKey d)"
  obtain r w' where s: "send srv ?c ListBucketsCommand w = (r, w')"
    by (cases "send srv ?c ListBucketsCommand w")
  with send_sent[of srv ?c ListBucketsCommand w]
  have "sent w' = sent w @ [ListBucketsCommand]" by simp
  with s show ?thesis by (cases r) (simp_all add: handleConnect_def)
qed

lemma handleTestConnection_sent:
  "sent (snd (handleTestConnection srv d w)) = sent w @ [ListBucketsCommand]"
proof -
  let ?c = "new_S3Client (endpoint d) (accessKey d) (secretKey d)"
  obtain r w' where s: "send srv ?c ListBucketsCommand w = (r, w')"
    by (cases "send srv ?c ListBucketsCommand w")
  with send_sent[of srv ?c ListBucketsCommand w]
  have "sent w' = sent w @ [ListBucketsCommand]" by simp
  with s show ?thesis by (cases r) (simp_all add: handleTestConnection_def Let_def)
qed

lemma handleTestConnection_rejected:
  assumes "send srv (new_S3Client (endpoint d) (accessKey d) (secretKey d)) ListBucketsCommand w
             = (Inl e, w')"
  shows "handleTestConnection srv d w = (\<lparr>message = errorMessage e, type = ''error''\<rparr>, w')"
  using assms by (simp add: handleTestConnection_def)

text \<open>
  The text of a failed test names the error: two errors with the same text have the
  same name. The two hints end differently, so the hint alone tells a
  \<open>NetworkError\<close> from any other error.
\<close>

lemma errorMessage_inj:
  assumes eq: "errorMessage e1 = errorMessage e2"
  shows "error_name e1 = error_name e2"
proof (rule ccontr)
  assume ne: "error_name e1 \<noteq> error_name e2"
  have hint: "hd (tl (rev (errorMessage e))) =
      (if error_name e = ''NetworkError'' then CHR ''n'' else CHR ''L'')" for e
    by (simp add: errorMessage_def)
  from eq have "hd (tl (rev (errorMessage e1))) = hd (tl (rev (errorMessage e2)))" by simp
  then have same: "(error_name e1 = ''NetworkError'') = (error_name e2 = ''NetworkError'')"
    unfolding hint by (simp split: if_splits)
  show False
  proof (cases "error_name e1 = ''NetworkError''")
    case True
    with same ne show False by simp
  next
    case False
    with same have "error_name e2 \<noteq> ''NetworkError''" by simp
    with False eq have "error_name e1 @ ''. '' = error_name e2 @ ''. ''"
      by (simp add: errorMessage_def)
    with ne show False by simp
  qed
qed

text \<open>
  C6. A connect attempt, and a test of the connection, send exactly one
  \<open>ListBucketsCommand\<close>. When that request is rejected the client is not stored and
  the notification \<open>Connection failed: <error name>.\<close> is raised; two rejections
  whose errors have different names (a network-layer error and a credential error,
  say) are reported with different notifications by \<open>handleConnect\<close> and with
  different results by \<open>handleTestConnection\<close>.
\<close>

theorem connect_failures_distinguishable:
  assumes "send srv1 (new_S3Client (endpoint d1) (accessKey d1) (secretKey d1))
             ListBucketsCommand w1 = (Inl e1, w1')"
      and "send srv2 (new_S3Client (endpoint d2) (accessKey d2) (secretKey d2))
             ListBucketsCommand w2 = (Inl e2, w2')"
      and "error_name e1 \<noteq> error_name e2"
  shows "sent (snd (handleConnect srv1 now1 d1 cfg1 st1 w1)) = sent w1 @ [ListBucketsCommand]
     \<and> sent (snd (handleTestConnection srv1 d1 w1)) = sent w1 @ [ListBucketsCommand]
     \<and> s3Client (fst (handleConnect srv1 now1 d1 cfg1 st1 w1)) = s3Client st1
     \<and> alertData (fst (handleConnect srv1 now1 d1 cfg1 st1 w1)) =
         Some \<lparr>message = ''Connection failed: '' @ error_name e1 @ ''.'', type = ''error''\<rparr>
     \<and> alertData (fst (handleConnect srv1 now1 d1 cfg1 st1 w1)) \<noteq>
         alertData (fst (handleConnect srv2 now2 d2 cfg2 st2 w2))
     \<and> fst (handleTestConnection srv1 d1 w1) \<noteq> fst (handleTestConnection srv2 d2 w2)"
proof -
  have ne: "errorMessage e1 \<noteq> errorMessage e2"
    using assms(3) errorMessage_inj by blast
  have a: "sent (snd (handleConnect srv1 now1 d1 cfg1 st1 w1)) = sent w1 @ [ListBucketsCommand]"
    by (rule handleConnect_sent)
  have b: "sent (snd (handleTestConnection srv1 d1 w1)) = sent w1 @ [ListBucketsCommand]"
    by (rule handleTestConnection_sent)
  have c: "s3Client (fst (handleConnect srv1 now1 d1 cfg1 st1 w1)) = s3Client st1"
    by (simp add: handleConnect_rejected[OF assms(1)])
  have d: "alertData (fst (handleConnect srv1 now1 d1 cfg1 st1 w1)) =
         Some \<lparr>message = ''Connection failed: '' @ error_name e1 @ ''.'', type = ''error''\<rparr>"
    by (simp add: handleConnect_rejected[OF assms(1)])
  have e: "alertData (fst (handleConnect srv1 now1 d1 cfg1 st1 w1)) \<noteq>
         alertData (fst (handleConnect srv2 now2 d2 cfg2 st2 w2))"
    using assms(3)
    by (simp add: handleConnect_rejected[OF assms(1)] handleConnect_rejected[OF assms(2)])
  have f: "fst (handleTestConnection srv1 d1 w1) \<noteq> fst (handleTestConnection srv2 d2 w2)"
    using ne
    by (simp add: handleTestConnection_rejected[OF assms(1)]
        handleTestConnection_rejected[OF assms(2)])
  show ?thesis by (intro conjI a b c d e f)
qed

lemma send_net_down:
  "send net_down (new_S3Client (endpoint local_details) (accessKey local_details)
       (secretKey local_details)) ListBucketsCommand (photos_world []) =
     (Inl (Error ''NetworkError''), \<lparr>store = photos_store [], sent = [ListBucketsCommand]\<rparr>)"
  by (simp add: send_def net_down_def rejecting_def photos_world_def)

lemma send_bad_key:
  "send bad_key (new_S3Client (endpoint local_details) (accessKey local_details)
       (secretKey local_details)) ListBucketsCommand (photos_world []) =
     (Inl (Error ''InvalidAccessKeyId''), \<lparr>store = photos_store [], sent = [ListBucketsCommand]\<rparr>)"
  by (simp add: send_def bad_key_def rejecting_def photos_world_def)

theorem connect_failures_distinguishable_witness:
  "sent (snd (handleConnect net_down 0 local_details None initial_state (photos_world [])))
     = [ListBucketsCommand]
   \<and> s3Client (fst (handleConnect net_down 0 local_details None initial_state (photos_world [])))
     = None
   \<and> alertData (fst (handleConnect net_down 0 local_details None initial_state (photos_world [])))
     = Some \<lparr>message = ''Connection failed: NetworkError.'', type = ''error''\<rparr>
   \<and> alertData (fst (handleConnect net_down 0 local_details None initial_state (photos_world [])))
     \<noteq> alertData (fst (handleConnect bad_key 0 local_details None initial_state (photos_world [])))
   \<and> fst (handleTestConnection net_down local_details (photos_world []))
     \<noteq> fst (handleTestConnection bad_key local_details (photos_world []))"
proof -
  have "error_name (Error ''NetworkError'') \<noteq> error_name (Error ''InvalidAccessKeyId'')"
    by simp
  note th = connect_failures_distinguishable[OF send_net_down send_bad_key this,
      of 0 None initial_state 0 None initial_state]
  have s0: "sent (photos_world []) = []" by (simp add: photos_world_def)
  have c0: "s3Client initial_state = None" by (simp add: initial_state_def)
  show ?thesis using th unfolding s0 c0
    by (elim conjE, intro conjI; (assumption | simp))
qed

section \<open>Properties of the upload tracker\<close>

subsection \<open>Rounding to a double\<close>

text \<open>
  Rounding to the nearest integer moves a number by at most one half, keeps the
  order, and leaves an integer where it is.
\<close>

lemma round_half_even_cases:
  "round_half_even y = \<lfloor>y\<rfloor> \<or> round_half_even y = \<lfloor>y\<rfloor> + 1"
  by (simp add: round_half_even_def Let_def)

lemma round_half_even_near: "\<bar>of_int (round_half_even y) - y\<bar> \<le> 1 / 2"
proof -
  have "rat_of_int \<lfloor>y\<rfloor> \<le> y" "y < rat_of_int \<lfloor>y\<rfloor> + 1" by linarith+
  thus ?thesis unfolding round_half_even_def Let_def by (auto split: if_splits)
qed

lemma round_half_even_of_int: "round_half_even (of_int n) = n"
  by (simp add: round_half_even_def)

lemma round_half_even_mono:
  assumes "x \<le> y"
  shows "round_half_even x \<le> round_half_even y"
proof (cases "\<lfloor>x\<rfloor> = \<lfloor>y\<rfloor>")
  case True
  with assms show ?thesis by (auto simp: round_half_even_def Let_def)
next
  case False
  with assms have "\<lfloor>x\<rfloor> + 1 \<le> \<lfloor>y\<rfloor>" using floor_mono[of x y] by linarith
  moreover have "round_half_even x \<le> \<lfloor>x\<rfloor> + 1" using round_half_even_cases[of x] by linarith
  moreover have "\<lfloor>y\<rfloor> \<le> round_half_even y" using round_half_even_cases[of y] by linarith
  ultimately show ?thesis by linarith
qed

lemma round_half_even_ge: "of_int n \<le> y \<Longrightarrow> n \<le> round_half_even y"
  using round_half_even_mono[of "of_int n" y] by (simp add: round_half_even_of_int)

lemma round_half_even_le: "y \<le> of_int n \<Longrightarrow> round_half_even y \<le> n"
  using round_half_even_mono[of y "of_int n"] by (simp add: round_half_even_of_int)

text \<open>The exponent is the one of the binade that holds the number, and it keeps the order.\<close>

lemma exponent_bounds:
  assumes "0 < x"
  shows "2 powi exponent x \<le> x \<and> x < 2 powi (exponent x + 1)"
proof -
  obtain a b where q: "quotient_of x = (a, b)" by (cases "quotient_of x")
  have b: "0 < b" using quotient_of_denom_pos[OF q] .
  have x: "x = of_int a / of_int b" using quotient_of_div[OF q] .
  have a: "0 < a" using assms b x by (simp add: zero_less_divide_iff)
  define m where "m = bitlen a"
  define n where "n = bitlen b"
  have m: "0 < m" and n: "0 < n"
    using a b bitlen_eq_zero_iff[of a] bitlen_eq_zero_iff[of b] bitlen_nonneg[of a] bitlen_nonneg[of b]
    unfolding m_def n_def by linarith+
  from bitlen_bounds[OF a] have "of_int (2 ^ nat (m - 1)) \<le> (of_int a :: rat)" "(of_int a :: rat) < of_int (2 ^ nat m)"
    unfolding m_def by (simp_all only: of_int_le_iff of_int_less_iff)
  hence la: "2 powi (m - 1) \<le> (of_int a :: rat)" and ua: "(of_int a :: rat) < 2 powi m"
    using m by (simp_all add: power_int_def)
  from bitlen_bounds[OF b] have "of_int (2 ^ nat (n - 1)) \<le> (of_int b :: rat)" "(of_int b :: rat) < of_int (2 ^ nat n)"
    unfolding n_def by (simp_all only: of_int_le_iff of_int_less_iff)
  hence lb: "2 powi (n - 1) \<le> (of_int b :: rat)" and ub: "(of_int b :: rat) < 2 powi n"
    using n by (simp_all add: power_int_def)
  have "(2::rat) powi (m - 1) / 2 powi n \<le> of_int a / of_int b"
    by (rule frac_le) (use la ub a b in simp_all)
  hence lo: "2 powi (m - n - 1) \<le> x"
    unfolding x by (simp add: power_int_diff[symmetric] algebra_simps)
  have "of_int a / of_int b < (2::rat) powi m / 2 powi (n - 1)"
    by (rule frac_less) (use ua lb a in simp_all)
  hence hi: "x < 2 powi (m - n + 1)"
    unfolding x by (simp add: power_int_diff[symmetric] algebra_simps)
  have e: "exponent x = (if 2 powi (m - n) \<le> x then m - n else m - n - 1)"
    by (simp add: exponent_def q m_def n_def Let_def)
  show ?thesis
  proof (cases "2 powi (m - n) \<le> x")
    case True
    with e hi show ?thesis by simp
  next
    case False
    with e lo show ?thesis by simp
  qed
qed

lemma exponent_mono:
  assumes "0 < x" "x \<le> y"
  shows "exponent x \<le> exponent y"
proof (rule ccontr)
  assume "\<not> exponent x \<le> exponent y"
  hence "exponent y + 1 \<le> exponent x" by simp
  hence "(2::rat) powi (exponent y + 1) \<le> 2 powi exponent x"
    by (intro power_int_increasing) simp_all
  moreover have "y < 2 powi (exponent y + 1)" using exponent_bounds[of y] assms by simp
  moreover have "2 powi exponent x \<le> x" using exponent_bounds[of x] assms by simp
  ultimately show False using assms by linarith
qed


text \<open>
  Rounding to a double stays within the binade of the number (its upper end included),
  moves the number by at most half a unit in the last place, keeps the order, and
  leaves \<open>1\<close> and \<open>100\<close> where they are.
\<close>

lemma to_double_unfold:
  assumes "0 < x"
  shows "to_double x = 2 powi (exponent x - 52) * of_int (round_half_even (x / 2 powi (exponent x - 52)))"
  using assms by (simp add: to_double_def Let_def)

lemma ulp_facts:
  fixes u :: rat
  assumes "u = 2 powi (e - 52)"
  shows "0 < u" and "2 powi e = u * 2 ^ 52" and "2 powi (e + 1) = u * 2 ^ 53"
proof -
  show "0 < u" unfolding assms by (simp add: zero_less_power_int)
  have "(2::rat) powi e = 2 powi ((e - 52) + 52)" by simp
  also have "\<dots> = 2 powi (e - 52) * 2 powi 52" by (rule power_int_add) simp
  finally show "2 powi e = u * 2 ^ 52" unfolding assms by simp
  have "e + 1 = (e - 52) + 53" by simp
  hence "(2::rat) powi (e + 1) = 2 powi ((e - 52) + 53)" by (simp only:)
  also have "\<dots> = 2 powi (e - 52) * 2 powi 53" by (rule power_int_add) simp
  finally show "2 powi (e + 1) = u * 2 ^ 53" unfolding assms by simp
qed

lemma to_double_binade:
  assumes "0 < x"
  shows "2 powi exponent x \<le> to_double x \<and> to_double x \<le> 2 powi (exponent x + 1)"
proof -
  define u :: rat where "u = 2 powi (exponent x - 52)"
  note u = ulp_facts[OF u_def]
  have td: "to_double x = u * of_int (round_half_even (x / u))"
    using to_double_unfold[OF assms] by (simp add: u_def)
  from exponent_bounds[OF assms] have "u * 2 ^ 52 \<le> x" "x \<le> u * 2 ^ 53"
    unfolding u(2,3) by simp_all
  hence "of_int (2 ^ 52) \<le> x / u" "x / u \<le> of_int (2 ^ 53)"
    using u(1) by (simp_all add: field_simps)
  hence "2 ^ 52 \<le> round_half_even (x / u)" "round_half_even (x / u) \<le> 2 ^ 53"
    by (simp_all only: round_half_even_ge round_half_even_le)
  hence "(2 ^ 52 :: rat) \<le> of_int (round_half_even (x / u))"
        "of_int (round_half_even (x / u)) \<le> (2 ^ 53 :: rat)"
    by (simp_all only: of_int_le_iff[symmetric, where ?'a = rat] of_int_power of_int_numeral)
  thus ?thesis unfolding td u(2,3) using u(1) by simp
qed

lemma to_double_near:
  assumes "0 < x"
  shows "\<bar>to_double x - x\<bar> \<le> x / 2 ^ 53"
proof -
  define u :: rat where "u = 2 powi (exponent x - 52)"
  note u = ulp_facts[OF u_def]
  have td: "to_double x = u * of_int (round_half_even (x / u))"
    using to_double_unfold[OF assms] by (simp add: u_def)
  have "to_double x - x = u * (of_int (round_half_even (x / u)) - x / u)"
    unfolding td using u(1) by (simp add: field_simps)
  hence "\<bar>to_double x - x\<bar> = u * \<bar>of_int (round_half_even (x / u)) - x / u\<bar>"
    using u(1) by (simp add: abs_mult)
  also have "\<dots> \<le> u * (1 / 2)"
    using round_half_even_near[of "x / u"] u(1) by (intro mult_left_mono) simp_all
  also have "\<dots> \<le> x / 2 ^ 53"
  proof -
    from exponent_bounds[OF assms] have "u * 2 ^ 52 \<le> x" unfolding u(2) by simp
    thus ?thesis by (simp add: field_simps)
  qed
  finally show ?thesis .
qed

lemma to_double_nonneg: "0 \<le> x \<Longrightarrow> 0 \<le> to_double x"
proof (cases "x = 0")
  case True
  thus ?thesis by (simp add: to_double_def)
next
  case False
  assume "0 \<le> x"
  with False have "0 < x" by simp
  from to_double_binade[OF this] have "2 powi exponent x \<le> to_double x" by simp
  moreover have "(0::rat) < 2 powi exponent x" by (simp add: zero_less_power_int)
  ultimately show ?thesis by linarith
qed

lemma to_double_mono:
  assumes "0 \<le> x" "x \<le> y"
  shows "to_double x \<le> to_double y"
proof (cases "x = 0")
  case True
  with assms to_double_nonneg[of y] show ?thesis by (simp add: to_double_def)
next
  case False
  with assms have x: "0 < x" and y: "0 < y" by simp_all
  show ?thesis
  proof (cases "exponent x = exponent y")
    case True
    define u :: rat where "u = 2 powi (exponent x - 52)"
    note u = ulp_facts[OF u_def]
    have "x / u \<le> y / u" using assms(2) u(1) by (simp add: divide_right_mono)
    from round_half_even_mono[OF this]
    have "u * of_int (round_half_even (x / u)) \<le> u * of_int (round_half_even (y / u))"
      using u(1) by simp
    thus ?thesis
      using to_double_unfold[OF x] to_double_unfold[OF y] True by (simp add: u_def)
  next
    case False
    with exponent_mono[OF x assms(2)] have "exponent x + 1 \<le> exponent y" by simp
    hence "(2::rat) powi (exponent x + 1) \<le> 2 powi exponent y"
      by (intro power_int_increasing) simp_all
    with to_double_binade[OF x] to_double_binade[OF y] show ?thesis by linarith
  qed
qed

lemma to_double_1: "to_double 1 = 1"
  by code_simp

lemma to_double_100: "to_double 100 = 100"
  by code_simp

subsection \<open>The percentage of a callback\<close>

lemma Math_round_near: "\<bar>of_int (Math_round x) - x\<bar> \<le> 1 / 2"
  unfolding Math_round_def by linarith

lemma Math_round_mono: "x \<le> y \<Longrightarrow> Math_round x \<le> Math_round y"
  unfolding Math_round_def by (simp add: floor_mono)

lemma Math_round_le: "x \<le> of_int n \<Longrightarrow> Math_round x \<le> n"
  unfolding Math_round_def by linarith

lemma Math_round_nonneg: "0 \<le> x \<Longrightarrow> 0 \<le> Math_round x"
  unfolding Math_round_def by simp

lemma percent_nonneg: "0 \<le> percent pr"
proof (cases "total pr")
  case None
  thus ?thesis by (simp add: percent_def)
next
  case (Some t)
  show ?thesis
  proof (cases "t = 0")
    case True
    with Some show ?thesis by (simp add: percent_def)
  next
    case False
    have "0 \<le> to_double (rat_of_nat (loaded pr) / rat_of_nat t)"
      by (rule to_double_nonneg) simp
    hence "0 \<le> to_double (to_double (rat_of_nat (loaded pr) / rat_of_nat t) * 100)"
      by (intro to_double_nonneg) simp
    from Math_round_nonneg[OF this] Some False show ?thesis by (simp add: percent_def)
  qed
qed

lemma percent_unknown_total: "total pr = None \<or> total pr = Some 0 \<Longrightarrow> percent pr = 0"
  by (auto simp: percent_def)

lemma percent_le_100:
  assumes "total pr = Some t" "loaded pr \<le> t"
  shows "percent pr \<le> 100"
proof (cases "t = 0")
  case True
  with assms show ?thesis by (simp add: percent_def)
next
  case False
  have "rat_of_nat (loaded pr) / rat_of_nat t \<le> 1" using assms(2) False by simp
  hence "to_double (rat_of_nat (loaded pr) / rat_of_nat t) \<le> 1"
    using to_double_mono[of "rat_of_nat (loaded pr) / rat_of_nat t" 1] by (simp add: to_double_1)
  moreover have "0 \<le> to_double (rat_of_nat (loaded pr) / rat_of_nat t)"
    by (rule to_double_nonneg) simp
  ultimately have "to_double (to_double (rat_of_nat (loaded pr) / rat_of_nat t) * 100) \<le> 100"
    using to_double_mono[of "to_double (rat_of_nat (loaded pr) / rat_of_nat t) * 100" 100]
    by (simp add: to_double_100)
  hence "Math_round (to_double (to_double (rat_of_nat (loaded pr) / rat_of_nat t) * 100)) \<le> 100"
    using Math_round_le[of _ 100] by simp
  with False assms(1) show ?thesis by (simp add: percent_def)
qed

lemma percent_mono:
  assumes "total pr = total pr'" "loaded pr \<le> loaded pr'"
  shows "percent pr \<le> percent pr'"
proof (cases "total pr")
  case None
  with assms show ?thesis by (simp add: percent_def)
next
  case (Some t)
  show ?thesis
  proof (cases "t = 0")
    case True
    with Some assms show ?thesis by (simp add: percent_def)
  next
    case False
    have "rat_of_nat (loaded pr) / rat_of_nat t \<le> rat_of_nat (loaded pr') / rat_of_nat t"
      using assms(2) False by (simp add: divide_right_mono)
    hence "to_double (rat_of_nat (loaded pr) / rat_of_nat t)
             \<le> to_double (rat_of_nat (loaded pr') / rat_of_nat t)"
      by (intro to_double_mono) simp_all
    moreover have "0 \<le> to_double (rat_of_nat (loaded pr) / rat_of_nat t)"
      by (rule to_double_nonneg) simp
    ultimately have "to_double (to_double (rat_of_nat (loaded pr) / rat_of_nat t) * 100)
             \<le> to_double (to_double (rat_of_nat (loaded pr') / rat_of_nat t) * 100)"
      by (intro to_double_mono) simp_all
    from Math_round_mono[OF this] Some assms(1) False show ?thesis
      by (simp add: percent_def)
  qed
qed

lemma to_double_near0: "0 \<le> x \<Longrightarrow> \<bar>to_double x - x\<bar> \<le> x / 2 ^ 53"
  using to_double_near[of x] by (cases "x = 0") (simp_all add: to_double_def)

lemma percent_near:
  assumes "total pr = Some t" "0 < t"
  shows "\<bar>of_int (percent pr) - 100 * rat_of_nat (loaded pr) / rat_of_nat t\<bar>
           \<le> 1 / 2 + (100 * rat_of_nat (loaded pr) / rat_of_nat t) / 2 ^ 51"
proof -
  define x where "x = rat_of_nat (loaded pr) / rat_of_nat t"
  define q where "q = to_double x"
  define p where "p = to_double (q * 100)"
  have x: "0 \<le> x" unfolding x_def by simp
  have q: "0 \<le> q" unfolding q_def by (rule to_double_nonneg[OF x])
  have 1: "\<bar>q - x\<bar> \<le> x / 2 ^ 53" unfolding q_def by (rule to_double_near0[OF x])
  have 2: "\<bar>p - q * 100\<bar> \<le> q * 100 / 2 ^ 53"
    unfolding p_def by (rule to_double_near0) (use q in simp)
  have 3: "\<bar>of_int (Math_round p) - p\<bar> \<le> 1 / 2" by (rule Math_round_near)
  define d where "d = x / 2 ^ 53"
  have d: "0 \<le> d" "d \<le> x" using x unfolding d_def by (simp_all add: field_simps)
  have 4: "q \<le> 2 * x" using 1 d unfolding d_def[symmetric] by linarith
  have "q * 100 / 2 ^ 53 \<le> 2 * x * 100 / 2 ^ 53"
    using 4 by (intro divide_right_mono mult_right_mono) simp_all
  also have "\<dots> = 200 * d" by (simp add: d_def)
  finally have 5: "\<bar>p - q * 100\<bar> \<le> 200 * d" using 2 by linarith
  have 6: "100 * x / 2 ^ 51 = 400 * d" by (simp add: d_def)
  have "\<bar>of_int (Math_round p) - 100 * x\<bar> \<le> 1 / 2 + 100 * x / 2 ^ 51"
    unfolding 6 using 1 3 5 d(1) unfolding d_def[symmetric] by linarith
  moreover have "percent pr = Math_round p"
    using assms by (simp add: percent_def p_def q_def x_def)
  ultimately show ?thesis by (simp add: x_def)
qed

lemma on_httpUploadProgress_elem:
  "f \<in> set (on_httpUploadProgress uid pr prev) \<Longrightarrow>
     \<exists>g\<in>set prev. f = (if id' g = uid then g\<lparr>progress := percent pr\<rparr> else g)"
  unfolding on_httpUploadProgress_def set_map by (erule imageE) (rule bexI)

lemma updated_task_progress:
  "f = (if id' g = uid then g\<lparr>progress := p\<rparr> else g) \<Longrightarrow> id' f = uid \<Longrightarrow> progress f = p"
  by (cases "id' g = uid") simp_all

lemma on_httpUploadProgress_sets:
  assumes "f \<in> set (on_httpUploadProgress uid pr prev)" and "id' f = uid"
  shows "progress f = percent pr"
proof -
  from on_httpUploadProgress_elem[OF assms(1)] obtain g
    where "f = (if id' g = uid then g\<lparr>progress := percent pr\<rparr> else g)" by blast
  from updated_task_progress[OF this assms(2)] show ?thesis .
qed

text \<open>
  C8, as stated, fails. The handler stores \<open>Math.round(loaded / total * 100)\<close> as it
  is: a callback that reports 2 bytes of 1 yields 200, and a callback that reports
  fewer bytes than the one before lowers the progress of the task from 100 to 0.
\<close>

theorem percent_not_clamped_counterexample:
  "percent \<lparr>loaded = 2, total = Some 1\<rparr> = 200
   \<and> map (map progress)
        (run_callbacks ''f-1'' [\<lparr>loaded = 1, total = Some 1\<rparr>, \<lparr>loaded = 0, total = Some 1\<rparr>]
           [\<lparr>id' = ''f-1'', name = ''f'', progress = 0\<rparr>]) = [[100], [0]]"
  by code_simp

text \<open>
  C8, amended. The percentage stored by a progress callback is never negative; it is
  0 when the total is undefined or 0; otherwise it is the ratio of loaded to total
  bytes in percent as double arithmetic computes it, rounded to the nearest integer:
  it differs from the exact ratio in percent by at most one half and \<open>2^-51\<close> of that
  ratio (at 23 bytes of 40 it is 57 where the exact ratio is 57.5). It is at most 100
  whenever the loaded bytes do not exceed the total, and of two callbacks with the
  same total the one with no fewer loaded bytes yields no smaller a percentage. The
  callback gives the task with its identifier exactly this percentage, without
  clamping it or comparing it with the previous one.
\<close>

theorem percent_properties:
  "0 \<le> percent pr
   \<and> (total pr = None \<or> total pr = Some 0 \<longrightarrow> percent pr = 0)
   \<and> (total pr = Some t \<and> 0 < t \<longrightarrow>
        \<bar>of_int (percent pr) - 100 * rat_of_nat (loaded pr) / rat_of_nat t\<bar>
          \<le> 1 / 2 + (100 * rat_of_nat (loaded pr) / rat_of_nat t) / 2 ^ 51)
   \<and> (total pr = Some t \<and> loaded pr \<le> t \<longrightarrow> percent pr \<le> 100)
   \<and> (total pr = total pr' \<and> loaded pr \<le> loaded pr' \<longrightarrow> percent pr \<le> percent pr')
   \<and> (\<forall>f \<in> set (on_httpUploadProgress uploadId pr prev).
         id' f = uploadId \<longrightarrow> progress f = percent pr)"
  using percent_nonneg[of pr] percent_unknown_total[of pr] percent_near[of pr t]
    percent_le_100[of pr t] percent_mono[of pr pr'] on_httpUploadProgress_sets[of _ uploadId pr prev]
  by blast

theorem percent_properties_witness:
  "percent \<lparr>loaded = 1, total = Some 3\<rparr> = 33
   \<and> percent \<lparr>loaded = 2, total = Some 3\<rparr> = 67
   \<and> percent \<lparr>loaded = 23, total = Some 40\<rparr> = 57
   \<and> percent \<lparr>loaded = 29, total = Some 200\<rparr> = 14
   \<and> percent \<lparr>loaded = 1304999999999999, total = Some 8999999999999993\<rparr> = 14
   \<and> \<bar>of_int (percent \<lparr>loaded = 23, total = Some 40\<rparr>) - 100 * rat_of_nat 23 / rat_of_nat 40\<bar>
        \<le> 1 / 2 + (100 * rat_of_nat 23 / rat_of_nat 40) / 2 ^ 51
   \<and> percent \<lparr>loaded = 1, total = Some 3\<rparr> \<le> percent \<lparr>loaded = 2, total = Some 3\<rparr>
   \<and> percent \<lparr>loaded = 2, total = Some 3\<rparr> \<le> 100
   \<and> percent \<lparr>loaded = 7, total = None\<rparr> = 0
   \<and> map progress (on_httpUploadProgress ''f-1'' \<lparr>loaded = 1, total = Some 3\<rparr>
         [\<lparr>id' = ''f-1'', name = ''f'', progress = 0\<rparr>, \<lparr>id' = ''g-2'', name = ''g'', progress = 5\<rparr>])
       = [33, 5]"
proof -
  have a: "percent \<lparr>loaded = 1, total = Some 3\<rparr> = 33"
    by code_simp
  have b: "percent \<lparr>loaded = 2, total = Some 3\<rparr> = 67"
    by code_simp
  have g: "percent \<lparr>loaded = 23, total = Some 40\<rparr> = 57"
    by code_simp
  have h: "percent \<lparr>loaded = 29, total = Some 200\<rparr> = 14"
    by code_simp
  have i: "percent \<lparr>loaded = 1304999999999999, total = Some 8999999999999993\<rparr> = 14"
    by code_simp
  have j: "\<bar>of_int (percent \<lparr>loaded = 23, total = Some 40\<rparr>) - 100 * rat_of_nat 23 / rat_of_nat 40\<bar>
        \<le> 1 / 2 + (100 * rat_of_nat 23 / rat_of_nat 40) / 2 ^ 51"
    using percent_properties[of "\<lparr>loaded = 23, total = Some 40\<rparr>" 40] by simp
  have c: "percent \<lparr>loaded = 7, total = None\<rparr> = 0"
    using percent_properties[of "\<lparr>loaded = 7, total = None\<rparr>"] by simp
  have d: "percent \<lparr>loaded = 1, total = Some 3\<rparr> \<le> percent \<lparr>loaded = 2, total = Some 3\<rparr>"
    using percent_properties[of "\<lparr>loaded = 1, total = Some 3\<rparr>" 3 "\<lparr>loaded = 2, total = Some 3\<rparr>"] by simp
  have e: "percent \<lparr>loaded = 2, total = Some 3\<rparr> \<le> 100"
    using percent_properties[of "\<lparr>loaded = 2, total = Some 3\<rparr>" 3] by simp
  have f: "map progress (on_httpUploadProgress ''f-1'' \<lparr>loaded = 1, total = Some 3\<rparr>
         [\<lparr>id' = ''f-1'', name = ''f'', progress = 0\<rparr>, \<lparr>id' = ''g-2'', name = ''g'', progress = 5\<rparr>])
       = [33, 5]"
    by code_simp
  show ?thesis by (intro conjI a b g h i j d e c f)
qed

section \<open>Properties of the key resolver and of the delete orchestrator\<close>

subsection \<open>The loops return what the pages hold\<close>

text \<open>
  Whenever the pages of a listing end, the loop of \<open>getAllKeysInPrefix\<close> returns
  the keys collected so far followed by the keys of the pages, and the loop over the
  selection returns the contributions of the selected keys in order. \<open>new_Set\<close>
  keeps every element once.
\<close>

lemma delete_requests_append:
  "delete_requests (xs @ ys) = delete_requests xs @ delete_requests ys"
  by (induction xs rule: delete_requests.induct) simp_all

lemma keys_step:
  "(case Contents resp of None \<Rightarrow> keys | Some cs \<Rightarrow> keys @ map Key cs)
     = keys @ map Key (or_empty (Contents resp))"
  by (cases "Contents resp") simp_all

lemma loop_of_pages:
  assumes "listing_pages srv client b p tok w pages w'"
  shows "getAllKeysInPrefix_loop srv client b p keys tok w = Some (Inr (keys @ concat pages), w')"
  using assms
proof (induction arbitrary: keys rule: listing_pages.induct)
  case (last_page tok w resp w' page)
  then show ?case
    by (subst getAllKeysInPrefix_loop.simps) (simp add: keys_step)
next
  case (next_page tok w resp w1 page pages w')
  then show ?case
    by (subst getAllKeysInPrefix_loop.simps) (simp add: keys_step)
qed

lemma getAllKeysInPrefix_of_pages:
  "listing_pages srv client b p None w pages w' \<Longrightarrow>
   getAllKeysInPrefix srv client b p w = Some (Inr (concat pages), w')"
  using loop_of_pages[of srv client b p None w pages w' "[]"]
  by (simp add: getAllKeysInPrefix_def)

lemma resolve_loop_of_pages:
  assumes "selection_pages srv client b items w pss w'"
  shows "resolve_loop srv client b items acc w = Some (Inr (acc @ concat (map concat pss)), w')"
  using assms
proof (induction arbitrary: acc rule: selection_pages.induct)
  case (no_item w)
  show ?case by simp
next
  case (file_item k ks w pss w')
  then show ?case by simp
next
  case (folder_item k w pages w1 ks pss w')
  then show ?case by (simp add: getAllKeysInPrefix_of_pages)
qed

lemma resolveKeys_of_pages:
  "selection_pages srv client b items w pss w' \<Longrightarrow>
   resolveKeys srv client b items w = Some (Inr (new_Set (concat (map concat pss))), w')"
  using resolve_loop_of_pages[of srv client b items w pss w' "[]"]
  by (simp add: resolveKeys_def)

lemma foldl_Set_add: "set (foldl Set_add s xs) = set s \<union> set xs \<and> (distinct s \<longrightarrow> distinct (foldl Set_add s xs))"
  by (induction xs arbitrary: s) (auto simp: Set_add_def)

lemma set_new_Set: "set (new_Set xs) = set xs"
  using foldl_Set_add[of "[]" xs] by (simp add: new_Set_def)

lemma distinct_new_Set: "distinct (new_Set xs)"
  using foldl_Set_add[of "[]" xs] by (simp add: new_Set_def)

subsection \<open>What the handler sends\<close>

text \<open>
  Resolving a selection sends listing commands only, \<open>fetchObjects\<close> changes
  neither the client, the context, the tracked uploads nor the dialog flag and sends
  one listing command, and \<open>handleDeleteSelected\<close> is unfolded for an empty and
  for a non-empty resolved key set.
\<close>

lemma loop_delete_requests:
  assumes "getAllKeysInPrefix_loop srv client b p keys tok w = Some y"
  shows "delete_requests (sent (snd y)) = delete_requests (sent w)"
proof (rule getAllKeysInPrefix_loop.raw_induct[where
      P = "\<lambda>srv client b p keys tok w y. delete_requests (sent (snd y)) = delete_requests (sent w)",
      OF _ assms], goal_cases)
  case (1 f srv client b p keys tok w y)
  obtain r w1 where s: "send srv client (ListObjectsV2Command b p None tok) w = (r, w1)"
    by (cases "send srv client (ListObjectsV2Command b p None tok) w")
  from send_world[OF s] have sent1: "delete_requests (sent w1) = delete_requests (sent w)"
    by (simp add: delete_requests_append)
  show ?case
  proof (cases r)
    case (Inl e)
    with s "1"(2) have "y = (Inl e, w1)" by simp
    with sent1 show ?thesis by simp
  next
    case (Inr resp)
    show ?thesis
    proof (cases "truthy (NextContinuationToken resp)")
      case True
      with s Inr "1"(2)
      have "f srv client b p (keys @ map Key (or_empty (Contents resp)))
              (NextContinuationToken resp) w1 = Some y"
        by (simp add: keys_step)
      from "1"(1)[OF this] sent1 show ?thesis by simp
    next
      case False
      with s Inr "1"(2) have "snd y = w1" by (auto simp: Let_def)
      with sent1 show ?thesis by simp
    qed
  qed
qed

lemma resolve_loop_delete_requests:
  "resolve_loop srv client b items acc w = Some y \<Longrightarrow>
   delete_requests (sent (snd y)) = delete_requests (sent w)"
proof (induction items arbitrary: acc w)
  case Nil
  then show ?case by auto
next
  case (Cons k ks)
  show ?case
  proof (cases "endsWith k ''/''")
    case False
    with Cons.prems have "resolve_loop srv client b ks (acc @ [k]) w = Some y" by simp
    from Cons.IH[OF this] show ?thesis .
  next
    case True
    show ?thesis
    proof (cases "getAllKeysInPrefix srv client b k w")
      case None
      with True Cons.prems show ?thesis by simp
    next
      case (Some z)
      obtain r w1 where z: "z = (r, w1)" by (cases z)
      from Some z loop_delete_requests[of srv client b k "[]" None w z]
      have sent1: "delete_requests (sent w1) = delete_requests (sent w)"
        by (simp add: getAllKeysInPrefix_def)
      show ?thesis
      proof (cases r)
        case (Inl e)
        with True Some z Cons.prems have "y = (Inl e, w1)" by simp
        with sent1 show ?thesis by simp
      next
        case (Inr found)
        with True Some z Cons.prems have "resolve_loop srv client b ks (acc @ found) w1 = Some y"
          by simp
        from Cons.IH[OF this] sent1 show ?thesis by simp
      qed
    qed
  qed
qed

lemma resolveKeys_delete_requests:
  assumes "resolveKeys srv client b items w = Some (r, w1)"
  shows "delete_requests (sent w1) = delete_requests (sent w)"
proof (cases "resolve_loop srv client b items [] w")
  case None
  with assms show ?thesis by (simp add: resolveKeys_def)
next
  case (Some y)
  from resolve_loop_delete_requests[OF Some] Some assms show ?thesis
    by (auto simp: resolveKeys_def split: prod.splits sum.splits)
qed

lemma fetchObjects_frame:
  "s3Client (fst (fetchObjects srv bk p st w)) = s3Client st
   \<and> selectedBucket (fst (fetchObjects srv bk p st w)) = selectedBucket st
   \<and> prefix (fst (fetchObjects srv bk p st w)) = prefix st
   \<and> uploadingFiles (fst (fetchObjects srv bk p st w)) = uploadingFiles st
   \<and> isDeleteModalOpen (fst (fetchObjects srv bk p st w)) = isDeleteModalOpen st"
  by (simp add: fetchObjects_def showAlert_def Let_def split: option.splits prod.splits sum.splits)

lemma fetchObjects_sent:
  assumes "s3Client st = Some client" and "b \<noteq> []"
  shows "sent (snd (fetchObjects srv (Some b) p st w)) =
           sent w @ [ListObjectsV2Command b p (Some ''/'') None]"
proof -
  obtain r w1 where s: "send srv client (ListObjectsV2Command b p (Some ''/'') None) w = (r, w1)"
    by (cases "send srv client (ListObjectsV2Command b p (Some ''/'') None) w")
  from send_world[OF s] s assms show ?thesis
    by (cases r) (simp_all add: fetchObjects_def showAlert_def)
qed

lemma handleDeleteSelected_empty:
  assumes "s3Client st = Some client" and "selectedBucket st = Some b" and "b \<noteq> []"
    and "selectedItems st \<noteq> []"
    and "resolveKeys srv client b (selectedItems st) w = Some (Inr [], w1)"
  shows "handleDeleteSelected srv st w = Some (Inr (), st\<lparr>isDeleteModalOpen := False\<rparr>, w1)"
  using assms by (simp add: handleDeleteSelected_def)

lemma handleDeleteSelected_run:
  assumes "s3Client st = Some client" and "selectedBucket st = Some b" and "b \<noteq> []"
    and "selectedItems st \<noteq> []"
    and "resolveKeys srv client b (selectedItems st) w = Some (Inr ks, w1)" and "ks \<noteq> []"
    and "send srv client (DeleteObjectsCommand b ks) w1 = (r, w2)"
  shows "\<exists>st1. s3Client st1 = Some client \<and> \<not> isDeleteModalOpen st1
           \<and> handleDeleteSelected srv st w =
               Some (Inr (), fetchObjects srv (Some b) (prefix st) st1 w2)"
proof -
  define st1 where "st1 =
     (case r of
        Inr out \<Rightarrow> showAlert (show_nat (length ks) @ '' item(s) deleted successfully.'') ''success'' st
      | Inl err \<Rightarrow> showAlert ''Failed to delete items.'' ''error'' st)\<lparr>isDeleteModalOpen := False\<rparr>"
  have c1: "s3Client st1 = Some client" and m1: "\<not> isDeleteModalOpen st1"
    using assms(1) by (simp_all add: st1_def showAlert_def split: sum.splits)
  have "handleDeleteSelected srv st w = Some (Inr (), fetchObjects srv (Some b) (prefix st) st1 w2)"
    using assms by (simp add: handleDeleteSelected_def st1_def split: prod.splits)
  with c1 m1 show ?thesis by blast
qed

lemma handleDeleteSelected_nonempty:
  assumes "s3Client st = Some client" and "selectedBucket st = Some b" and "b \<noteq> []"
    and "selectedItems st \<noteq> []"
    and "resolveKeys srv client b (selectedItems st) w = Some (Inr ks, w1)" and "ks \<noteq> []"
  shows "\<exists>st' w'. handleDeleteSelected srv st w = Some (Inr (), st', w')
           \<and> sent w' = sent w1 @ [DeleteObjectsCommand b ks,
                                  ListObjectsV2Command b (prefix st) (Some ''/'') None]
           \<and> \<not> isDeleteModalOpen st'"
proof -
  obtain r w2 where d: "send srv client (DeleteObjectsCommand b ks) w1 = (r, w2)"
    by (cases "send srv client (DeleteObjectsCommand b ks) w1")
  define st1 where "st1 =
     (case r of
        Inr out \<Rightarrow> showAlert (show_nat (length ks) @ '' item(s) deleted successfully.'') ''success'' st
      | Inl err \<Rightarrow> showAlert ''Failed to delete items.'' ''error'' st)\<lparr>isDeleteModalOpen := False\<rparr>"
  have c1: "s3Client st1 = Some client" and m1: "\<not> isDeleteModalOpen st1"
    using assms(1) by (simp_all add: st1_def showAlert_def split: sum.splits)
  have run: "handleDeleteSelected srv st w =
      Some (Inr (), fst (fetchObjects srv (Some b) (prefix st) st1 w2),
            snd (fetchObjects srv (Some b) (prefix st) st1 w2))"
    using assms d by (simp add: handleDeleteSelected_def st1_def split: prod.splits)
  have "sent (snd (fetchObjects srv (Some b) (prefix st) st1 w2)) =
          sent w1 @ [DeleteObjectsCommand b ks, ListObjectsV2Command b (prefix st) (Some ''/'') None]"
    using fetchObjects_sent[OF c1 assms(3), of srv "prefix st" w2] send_world[OF d] by simp
  moreover have "\<not> isDeleteModalOpen (fst (fetchObjects srv (Some b) (prefix st) st1 w2))"
    using fetchObjects_frame[of srv "Some b" "prefix st" st1 w2] m1 by simp
  ultimately show ?thesis using run by blast
qed

subsection \<open>The reference store answers a listing in finitely many pages\<close>

text \<open>
  Wherever the reference store cuts its pages, the pages of a flat listing end, and
  together they hold the stored keys that start with the prefix, in stored order.
  So every resolution against it returns.
\<close>

lemma concat_cut_pages: "concat (cut_pages cs xs) = xs"
  by (induction cs xs rule: cut_pages.induct) simp_all

lemma page_keys: "map Key (or_empty (if xs = [] then None else Some (map mk_object xs))) = xs"
  by (simp add: mk_object_def comp_def)

lemma send_ref_flat:
  "send ref_service client (ListObjectsV2Command (ref_bucket s) p None tok) \<lparr>store = s, sent = l\<rparr> =
     (Inr (fst (ref_flat_list s p tok)),
      \<lparr>store = s\<lparr>ref_cuts := tl (ref_cuts s)\<rparr>,
       sent = l @ [ListObjectsV2Command (ref_bucket s) p None tok]\<rparr>)"
  by (simp add: send_def ref_flat_list_def Let_def)

lemma ref_flat_list_last:
  assumes "ref_cuts s = [] \<or> length (drop (token_offset tok) (filter (\<lambda>k. startsWith k p) (ref_keys s))) \<le> Suc (hd (ref_cuts s))"
  shows "\<not> truthy (NextContinuationToken (fst (ref_flat_list s p tok)))"
    and "map Key (or_empty (Contents (fst (ref_flat_list s p tok)))) =
           drop (token_offset tok) (filter (\<lambda>k. startsWith k p) (ref_keys s))"
  using assms
  by (auto simp: ref_flat_list_def Let_def empty_response_def mk_object_def comp_def split: list.splits)

lemma ref_flat_list_more:
  assumes "ref_cuts s = c # cs"
    and "\<not> length (drop (token_offset tok) (filter (\<lambda>k. startsWith k p) (ref_keys s))) \<le> Suc c"
  shows "NextContinuationToken (fst (ref_flat_list s p tok)) = Some (replicate (token_offset tok + Suc c) CHR ''t'')"
    and "map Key (or_empty (Contents (fst (ref_flat_list s p tok)))) =
           take (Suc c) (drop (token_offset tok) (filter (\<lambda>k. startsWith k p) (ref_keys s)))"
  using assms
  by (auto simp: ref_flat_list_def Let_def empty_response_def mk_object_def comp_def)

lemma ref_listing_pages:
  assumes "ref_cuts s = cs"
  shows "\<exists>w'. listing_pages ref_service client (ref_bucket s) p tok \<lparr>store = s, sent = l\<rparr>
           (cut_pages cs (drop (token_offset tok) (filter (\<lambda>k. startsWith k p) (ref_keys s)))) w'
         \<and> ref_keys (store w') = ref_keys s \<and> ref_bucket (store w') = ref_bucket s"
  using assms
proof (induction cs arbitrary: s tok l)
  case Nil
  let ?w' = "\<lparr>store = s\<lparr>ref_cuts := tl (ref_cuts s)\<rparr>,
       sent = l @ [ListObjectsV2Command (ref_bucket s) p None tok]\<rparr>"
  from Nil have last: "ref_cuts s = [] \<or> length (drop (token_offset tok) (filter (\<lambda>k. startsWith k p) (ref_keys s))) \<le> Suc (hd (ref_cuts s))"
    by simp
  have "listing_pages ref_service client (ref_bucket s) p tok \<lparr>store = s, sent = l\<rparr>
           [drop (token_offset tok) (filter (\<lambda>k. startsWith k p) (ref_keys s))] ?w'"
    by (rule last_page[OF send_ref_flat ref_flat_list_last(1)[OF last]])
       (simp add: ref_flat_list_last(2)[OF last])
  then show ?case by (intro exI[of _ ?w']) simp
next
  case (Cons c cs)
  let ?rest = "drop (token_offset tok) (filter (\<lambda>k. startsWith k p) (ref_keys s))"
  let ?s1 = "s\<lparr>ref_cuts := tl (ref_cuts s)\<rparr>"
  let ?w1 = "\<lparr>store = ?s1, sent = l @ [ListObjectsV2Command (ref_bucket s) p None tok]\<rparr>"
  show ?case
  proof (cases "length ?rest \<le> Suc c")
    case True
    with Cons.prems have last: "ref_cuts s = [] \<or> length ?rest \<le> Suc (hd (ref_cuts s))"
      by simp
    have "listing_pages ref_service client (ref_bucket s) p tok \<lparr>store = s, sent = l\<rparr> [?rest] ?w1"
      by (rule last_page[OF send_ref_flat ref_flat_list_last(1)[OF last]])
         (simp add: ref_flat_list_last(2)[OF last])
    with True show ?thesis by (intro exI[of _ ?w1]) simp
  next
    case False
    let ?tok' = "Some (replicate (token_offset tok + Suc c) CHR ''t'')"
    note more = ref_flat_list_more[OF Cons.prems False]
    have cuts1: "ref_cuts ?s1 = cs" using Cons.prems by simp
    from Cons.IH[OF cuts1, of ?tok' "l @ [ListObjectsV2Command (ref_bucket s) p None tok]"]
    obtain w' where run: "listing_pages ref_service client (ref_bucket s) p ?tok' ?w1
           (cut_pages cs (drop (token_offset ?tok') (filter (\<lambda>k. startsWith k p) (ref_keys s)))) w'"
      and keep: "ref_keys (store w') = ref_keys s" "ref_bucket (store w') = ref_bucket s"
      by auto
    have off: "drop (token_offset ?tok') (filter (\<lambda>k. startsWith k p) (ref_keys s)) = drop (Suc c) ?rest"
      by (simp add: token_offset_def add.commute)
    have "listing_pages ref_service client (ref_bucket s) p tok \<lparr>store = s, sent = l\<rparr>
            (take (Suc c) ?rest # cut_pages cs (drop (Suc c) ?rest)) w'"
    proof (rule next_page[OF send_ref_flat])
      show "truthy (NextContinuationToken (fst (ref_flat_list s p tok)))"
        by (simp add: more(1))
      show "take (Suc c) ?rest = map Key (or_empty (Contents (fst (ref_flat_list s p tok))))"
        by (simp add: more(2))
      show "listing_pages ref_service client (ref_bucket s) p
              (NextContinuationToken (fst (ref_flat_list s p tok))) ?w1
              (cut_pages cs (drop (Suc c) ?rest)) w'"
        using run unfolding off more(1) .
    qed
    with False keep show ?thesis by (intro exI[of _ w']) simp
  qed
qed

lemma ref_getAllKeysInPrefix:
  "\<exists>w'. getAllKeysInPrefix ref_service client (ref_bucket s) p \<lparr>store = s, sent = l\<rparr> =
          Some (Inr (filter (\<lambda>k. startsWith k p) (ref_keys s)), w')
        \<and> ref_keys (store w') = ref_keys s \<and> ref_bucket (store w') = ref_bucket s"
proof -
  from ref_listing_pages[OF refl, where s = s and client = client and p = p and tok = None and l = l]
  obtain w' where run: "listing_pages ref_service client (ref_bucket s) p None \<lparr>store = s, sent = l\<rparr>
           (cut_pages (ref_cuts s) (filter (\<lambda>k. startsWith k p) (ref_keys s))) w'"
    and keep: "ref_keys (store w') = ref_keys s" "ref_bucket (store w') = ref_bucket s"
    by (auto simp: token_offset_def)
  from getAllKeysInPrefix_of_pages[OF run] keep show ?thesis
    by (simp add: concat_cut_pages)
qed

lemma ref_selection_pages:
  "\<exists>pss w'. selection_pages ref_service client (ref_bucket s) items \<lparr>store = s, sent = l\<rparr> pss w'
      \<and> map concat pss = map (contribution (ref_keys s)) items
      \<and> ref_keys (store w') = ref_keys s \<and> ref_bucket (store w') = ref_bucket s"
proof (induction items arbitrary: s l)
  case Nil
  have "selection_pages ref_service client (ref_bucket s) [] \<lparr>store = s, sent = l\<rparr> [] \<lparr>store = s, sent = l\<rparr>"
    by (rule no_item)
  then show ?case by (intro exI[of _ "[]"] exI[of _ "\<lparr>store = s, sent = l\<rparr>"]) simp
next
  case (Cons k ks)
  show ?case
  proof (cases "endsWith k ''/''")
    case False
    from Cons.IH[of s l] obtain pss w' where
      run: "selection_pages ref_service client (ref_bucket s) ks \<lparr>store = s, sent = l\<rparr> pss w'"
      and c: "map concat pss = map (contribution (ref_keys s)) ks"
      and keep: "ref_keys (store w') = ref_keys s" "ref_bucket (store w') = ref_bucket s"
      by blast
    from file_item[OF False run] c keep False show ?thesis
      by (intro exI[of _ "[[k]] # pss"] exI[of _ w']) (simp add: contribution_def)
  next
    case True
    from ref_listing_pages[OF refl, where s = s and client = client and p = k and tok = None and l = l]
    obtain w1 where pages: "listing_pages ref_service client (ref_bucket s) k None \<lparr>store = s, sent = l\<rparr>
           (cut_pages (ref_cuts s) (filter (\<lambda>x. startsWith x k) (ref_keys s))) w1"
      and keep1: "ref_keys (store w1) = ref_keys s" "ref_bucket (store w1) = ref_bucket s"
      by (auto simp: token_offset_def)
    obtain s1 l1 where w1: "w1 = \<lparr>store = s1, sent = l1\<rparr>" by (cases w1) auto
    with keep1 have keep1': "ref_keys s1 = ref_keys s" "ref_bucket s1 = ref_bucket s" by simp_all
    from Cons.IH[of s1 l1] keep1' obtain pss w' where
      run: "selection_pages ref_service client (ref_bucket s) ks \<lparr>store = s1, sent = l1\<rparr> pss w'"
      and c: "map concat pss = map (contribution (ref_keys s)) ks"
      and keep: "ref_keys (store w') = ref_keys s" "ref_bucket (store w') = ref_bucket s"
      by auto
    from run w1 have run': "selection_pages ref_service client (ref_bucket s) ks w1 pss w'" by simp
    from folder_item[OF True pages run'] c keep True show ?thesis
      by (intro exI[of _ "cut_pages (ref_cuts s) (filter (\<lambda>x. startsWith x k) (ref_keys s)) # pss"]
            exI[of _ w']) (simp add: contribution_def concat_cut_pages)
  qed
qed

lemma ref_resolveKeys:
  "\<exists>w'. resolveKeys ref_service client (ref_bucket s) items \<lparr>store = s, sent = l\<rparr> =
           Some (Inr (new_Set (concat (map (contribution (ref_keys s)) items))), w')
        \<and> ref_keys (store w') = ref_keys s \<and> ref_bucket (store w') = ref_bucket s"
proof -
  from ref_selection_pages[of client s items l] obtain pss w' where
    run: "selection_pages ref_service client (ref_bucket s) items \<lparr>store = s, sent = l\<rparr> pss w'"
    and c: "map concat pss = map (contribution (ref_keys s)) items"
    and keep: "ref_keys (store w') = ref_keys s" "ref_bucket (store w') = ref_bucket s"
    by blast
  from resolveKeys_of_pages[OF run] c keep show ?thesis by simp
qed

lemma startsWith_refl: "startsWith p p"
  by (simp add: startsWith_def)

text \<open>
  C5. Take any run of the store in which, for every selected folder prefix, the flat
  listing under it ends after finitely many pages. Then the resolver returns, and its
  result is the list of the selected file keys and of all keys of all those pages,
  in order, with duplicates removed: it has no duplicates and holds exactly the keys
  of the pages. A second run, against any store, in which every selected key
  contributes the same keys cut into pages at other places resolves to the same
  result.
\<close>

lemma fetchObjects_ref_store:
  "store (snd (fetchObjects ref_service bk p st w)) = store w"
  by (auto simp: fetchObjects_def send_def Let_def split: option.splits prod.splits sum.splits if_splits)

lemma ref_delete_folder:
  assumes "s3Client st = Some client" and "selectedBucket st = Some (ref_bucket s)"
    and "ref_bucket s \<noteq> []" and "selectedItems st = [p]" and "endsWith p ''/''"
    and "p \<in> set (ref_keys s)"
  shows "\<exists>st' w'. handleDeleteSelected ref_service st \<lparr>store = s, sent = l\<rparr> = Some (Inr (), st', w')
      \<and> delete_requests (sent w') =
          delete_requests l @ [new_Set (filter (\<lambda>k. startsWith k p) (ref_keys s))]
      \<and> ref_keys (store w') = filter (\<lambda>k. \<not> startsWith k p) (ref_keys s)"
proof -
  let ?ks = "new_Set (filter (\<lambda>k. startsWith k p) (ref_keys s))"
  from ref_resolveKeys[of client s "[p]" l] assms(5) obtain w1 where
    res: "resolveKeys ref_service client (ref_bucket s) [p] \<lparr>store = s, sent = l\<rparr> = Some (Inr ?ks, w1)"
    and keep: "ref_keys (store w1) = ref_keys s" "ref_bucket (store w1) = ref_bucket s"
    by (auto simp: contribution_def)
  have "p \<in> set ?ks" using assms(6) by (simp add: set_new_Set startsWith_refl)
  then have ne: "?ks \<noteq> []" by auto
  let ?w2 = "\<lparr>store = (store w1)\<lparr>ref_keys := filter (\<lambda>k. k \<notin> set ?ks) (ref_keys (store w1))\<rparr>,
             sent = sent w1 @ [DeleteObjectsCommand (ref_bucket s) ?ks]\<rparr>"
  have d: "send ref_service client (DeleteObjectsCommand (ref_bucket s) ?ks) w1 = (Inr empty_response, ?w2)"
    using keep by (simp add: send_def)
  have items: "selectedItems st \<noteq> []" using assms(4) by simp
  from res assms(4) have res': "resolveKeys ref_service client (ref_bucket s) (selectedItems st)
      \<lparr>store = s, sent = l\<rparr> = Some (Inr ?ks, w1)" by simp
  from handleDeleteSelected_run[OF assms(1,2,3) items res' ne d] obtain st1 where
    c1: "s3Client st1 = Some client"
    and run: "handleDeleteSelected ref_service st \<lparr>store = s, sent = l\<rparr> =
               Some (Inr (), fetchObjects ref_service (Some (ref_bucket s)) (prefix st) st1 ?w2)"
    by blast
  let ?res = "fetchObjects ref_service (Some (ref_bucket s)) (prefix st) st1 ?w2"
  have sent': "sent (snd ?res) = sent ?w2 @ [ListObjectsV2Command (ref_bucket s) (prefix st) (Some ''/'') None]"
    by (rule fetchObjects_sent[OF c1 assms(3)])
  have "delete_requests (sent w1) = delete_requests l"
    using resolveKeys_delete_requests[OF res] by simp
  with sent' have a: "delete_requests (sent (snd ?res)) = delete_requests l @ [?ks]"
    by (simp add: delete_requests_append)
  have "store (snd ?res) = store ?w2" by (rule fetchObjects_ref_store)
  then have b: "ref_keys (store (snd ?res)) = filter (\<lambda>k. \<not> startsWith k p) (ref_keys s)"
    using keep by (simp add: set_new_Set cong: filter_cong)
  from run a b show ?thesis
    by (intro exI[of _ "fst ?res"] exI[of _ "snd ?res"]) simp
qed

text \<open>
  C10. Against the reference store, wherever it cuts its pages, the resolution of a
  selected folder prefix \<open>p\<close> returns exactly the stored keys that start with
  \<open>p\<close>; the key \<open>p\<close> itself, the folder marker, is among them when it is stored.
  Deleting the selection \<open>[p]\<close> then sends one delete request that holds the
  marker, and no key that starts with \<open>p\<close> is left in the store.
\<close>

lemma photos_select_client: "s3Client (photos_state\<lparr>selectedItems := items\<rparr>) = Some example_client"
  by (simp add: photos_state_def initial_state_def)

lemma photos_select_bucket: "selectedBucket (photos_state\<lparr>selectedItems := items\<rparr>) = Some ''photos''"
  by (simp add: photos_state_def initial_state_def)

lemma photos_select_prefix: "prefix (photos_state\<lparr>selectedItems := items\<rparr>) = []"
  by (simp add: photos_state_def initial_state_def)

text \<open>
  The selection of the one folder \<open>empty/\<close>, under which the reference bucket
  holds no key.
\<close>

subsection \<open>The resolver and the orchestrator\<close>

text \<open>
  The statements about the resolved key set and about the delete requests.
\<close>

theorem resolveKeys_union_of_pages:
  assumes "selection_pages srv client b items w pss w'"
    and "selection_pages srv2 client2 b2 items w2 pss2 w2'"
    and "map concat pss2 = map concat pss"
  shows "resolveKeys srv client b items w = Some (Inr (new_Set (concat (map concat pss))), w')
    \<and> distinct (new_Set (concat (map concat pss)))
    \<and> set (new_Set (concat (map concat pss))) = (\<Union>pages \<in> set pss. \<Union>page \<in> set pages. set page)
    \<and> map_option fst (resolveKeys srv2 client2 b2 items w2) =
        map_option fst (resolveKeys srv client b items w)"
  using resolveKeys_of_pages[OF assms(1)] resolveKeys_of_pages[OF assms(2)] assms(3)
  by (auto simp: distinct_new_Set set_new_Set)

text \<open>
  C7. When the resolution of the selection returns the empty key set, the handler
  returns normally and no delete request has been sent: the delete requests among
  the commands sent are those sent before the handler ran. Nothing in the state
  changes but the dialog flag, so no notification is raised. When the bucket name
  and the selection are not empty, the handler has closed the dialog and the world is
  the one the resolution left.
\<close>

theorem resolveKeys_union_of_pages_witness:
  "map_option fst (resolveKeys ref_service example_client ''photos'' [''x'', ''a/'', ''a/1''] (photos_world [0, 0])) =
     Some (Inr [''x'', ''a/'', ''a/1'', ''a/2'', ''a/sub/3''])
   \<and> map_option fst (resolveKeys ref_service example_client ''photos'' [''x'', ''a/'', ''a/1''] (photos_world [1])) =
     map_option fst (resolveKeys ref_service example_client ''photos'' [''x'', ''a/'', ''a/1''] (photos_world [0, 0]))"
proof -
  let ?items = "[''x'', ''a/'', ''a/1'']"
  from ref_selection_pages[of example_client "photos_store [0, 0]" ?items "[]"]
  obtain pss w' where
    run: "selection_pages ref_service example_client ''photos'' ?items (photos_world [0, 0]) pss w'"
    and c: "map concat pss = map (contribution (ref_keys (photos_store [0, 0]))) ?items"
    by (auto simp: photos_world_def photos_store_def)
  from ref_selection_pages[of example_client "photos_store [1]" ?items "[]"]
  obtain pss2 w2' where
    run2: "selection_pages ref_service example_client ''photos'' ?items (photos_world [1]) pss2 w2'"
    and c2: "map concat pss2 = map (contribution (ref_keys (photos_store [1]))) ?items"
    by (auto simp: photos_world_def photos_store_def)
  have same: "map concat pss2 = map concat pss"
    using c c2 by (simp add: photos_store_def)
  have eval: "map_option fst (resolveKeys ref_service example_client ''photos'' ?items (photos_world [0, 0])) =
     Some (Inr [''x'', ''a/'', ''a/1'', ''a/2'', ''a/sub/3''])"
    by code_simp
  from resolveKeys_union_of_pages[OF run run2 same] eval show ?thesis by simp
qed

theorem empty_resolution_sends_no_delete:
  assumes "s3Client st = Some client" and "selectedBucket st = Some b"
    and "resolveKeys srv client b (selectedItems st) w = Some (Inr [], w1)"
  shows "(\<exists>st' w'. handleDeleteSelected srv st w = Some (Inr (), st', w')
            \<and> delete_requests (sent w') = delete_requests (sent w)
            \<and> st'\<lparr>isDeleteModalOpen := False\<rparr> = st\<lparr>isDeleteModalOpen := False\<rparr>)
       \<and> (b \<noteq> [] \<and> selectedItems st \<noteq> [] \<longrightarrow>
            handleDeleteSelected srv st w = Some (Inr (), st\<lparr>isDeleteModalOpen := False\<rparr>, w1))"
proof (cases "b \<noteq> [] \<and> selectedItems st \<noteq> []")
  case True
  then have b: "b \<noteq> []" and i: "selectedItems st \<noteq> []" by simp_all
  from handleDeleteSelected_empty[OF assms(1,2) b i assms(3)]
    resolveKeys_delete_requests[OF assms(3)]
  show ?thesis by simp
next
  case False
  with assms(1,2) have "handleDeleteSelected srv st w = Some (Inr (), st, w)"
    by (auto simp: handleDeleteSelected_def)
  with False show ?thesis by auto
qed

text \<open>
  C1, amended. When the resolution of the selection returns a non-empty key set,
  whatever its size, the handler sends exactly one delete request, which carries
  all resolved keys, and then one listing request that refreshes the current
  prefix; whether the delete request is accepted or rejected, the handler returns
  normally with the dialog closed.
\<close>

theorem empty_resolution_sends_no_delete_witness:
  "handleDeleteSelected ref_service (photos_state\<lparr>selectedItems := [''empty/'']\<rparr>) (photos_world []) =
     Some (Inr (), photos_state\<lparr>selectedItems := [''empty/''], isDeleteModalOpen := False\<rparr>,
           \<lparr>store = photos_store [], sent = [ListObjectsV2Command ''photos'' ''empty/'' None None]\<rparr>)
   \<and> delete_requests [ListObjectsV2Command ''photos'' ''empty/'' None None] = []"
proof -
  have res: "resolveKeys ref_service example_client ''photos''
       (selectedItems (photos_state\<lparr>selectedItems := [''empty/'']\<rparr>)) (photos_world []) =
     Some (Inr [], \<lparr>store = photos_store [], sent = [ListObjectsV2Command ''photos'' ''empty/'' None None]\<rparr>)"
    by code_simp
  have b: "''photos'' \<noteq> []" by simp
  have i: "selectedItems (photos_state\<lparr>selectedItems := [''empty/'']\<rparr>) \<noteq> []" by simp
  from empty_resolution_sends_no_delete[OF photos_select_client photos_select_bucket res] b i
  show ?thesis by (simp add: photos_world_def)
qed

text \<open>
  C1, as stated, fails. Three file keys are selected; with a batch cap of two the
  claim asks for the two requests \<open>[x, a/1]\<close> and \<open>[a/2]\<close>. The handler sends one
  request with the three keys.
\<close>

theorem bulk_delete_not_chunked_counterexample:
  "map_option (\<lambda>(r, st', w'). delete_requests (sent w'))
     (handleDeleteSelected ref_service (photos_state\<lparr>selectedItems := [''x'', ''a/1'', ''a/2'']\<rparr>)
        (photos_world [])) = Some [[''x'', ''a/1'', ''a/2'']]
   \<and> spec_chunks 2 [''x'', ''a/1'', ''a/2''] = [[''x'', ''a/1''], [''a/2'']]"
  by code_simp

text \<open>
  The three keys again, against a store that rejects the delete request: the one
  request is followed by the refresh, and nothing else is sent.
\<close>

theorem bulk_delete_sends_one_request:
  assumes "s3Client st = Some client" and "selectedBucket st = Some b" and "b \<noteq> []"
    and "selectedItems st \<noteq> []"
    and "resolveKeys srv client b (selectedItems st) w = Some (Inr ks, w1)" and "ks \<noteq> []"
  shows "\<exists>st' w'. handleDeleteSelected srv st w = Some (Inr (), st', w')
           \<and> sent w' = sent w1 @ [DeleteObjectsCommand b ks,
                                  ListObjectsV2Command b (prefix st) (Some ''/'') None]
           \<and> delete_requests (sent w') = delete_requests (sent w) @ [ks]
           \<and> \<not> isDeleteModalOpen st'"
proof -
  from handleDeleteSelected_nonempty[OF assms] obtain st' w' where
    run: "handleDeleteSelected srv st w = Some (Inr (), st', w')"
    and s: "sent w' = sent w1 @ [DeleteObjectsCommand b ks,
                                  ListObjectsV2Command b (prefix st) (Some ''/'') None]"
    and m: "\<not> isDeleteModalOpen st'" by blast
  from s resolveKeys_delete_requests[OF assms(5)]
  have "delete_requests (sent w') = delete_requests (sent w) @ [ks]"
    by (simp add: delete_requests_append)
  with run s m show ?thesis by blast
qed

theorem bulk_delete_sends_one_request_witness:
  "map_option (\<lambda>(r, st', w'). (r, sent w', isDeleteModalOpen st'))
     (handleDeleteSelected slow_down (photos_state\<lparr>selectedItems := [''x'', ''a/1'', ''a/2'']\<rparr>)
        (photos_world [])) =
     Some (Inr (), [DeleteObjectsCommand ''photos'' [''x'', ''a/1'', ''a/2''],
                    ListObjectsV2Command ''photos'' [] (Some ''/'') None], False)"
proof -
  have res: "resolveKeys slow_down example_client ''photos''
       (selectedItems (photos_state\<lparr>selectedItems := [''x'', ''a/1'', ''a/2'']\<rparr>)) (photos_world []) =
     Some (Inr [''x'', ''a/1'', ''a/2''], photos_world [])"
    by code_simp
  have b: "''photos'' \<noteq> []" by simp
  have i: "selectedItems (photos_state\<lparr>selectedItems := [''x'', ''a/1'', ''a/2'']\<rparr>) \<noteq> []" by simp
  have k: "[''x'', ''a/1'', ''a/2''] \<noteq> []" by simp
  from bulk_delete_sends_one_request[OF photos_select_client photos_select_bucket b i res k]
  obtain st' w' where
    "handleDeleteSelected slow_down (photos_state\<lparr>selectedItems := [''x'', ''a/1'', ''a/2'']\<rparr>)
        (photos_world []) = Some (Inr (), st', w')"
    "sent w' = sent (photos_world []) @ [DeleteObjectsCommand ''photos'' [''x'', ''a/1'', ''a/2''],
        ListObjectsV2Command ''photos'' (prefix (photos_state\<lparr>selectedItems := [''x'', ''a/1'', ''a/2'']\<rparr>)) (Some ''/'') None]"
    "\<not> isDeleteModalOpen st'"
    by blast
  then show ?thesis by (simp add: photos_select_prefix photos_world_def)
qed

text \<open>
  The folder \<open>a/\<close> of the reference bucket, listed in pages of one key and then
  the rest: the marker \<open>a/\<close> is resolved and deleted with the three keys under it,
  and only \<open>x\<close> is left.
\<close>

theorem folder_resolves_to_keys_under_prefix:
  assumes "endsWith p ''/''"
  shows "(\<exists>ks w'. resolveKeys ref_service client (ref_bucket s) [p] \<lparr>store = s, sent = l\<rparr> = Some (Inr ks, w')
            \<and> set ks = {k \<in> set (ref_keys s). startsWith k p}
            \<and> (p \<in> set (ref_keys s) \<longrightarrow> p \<in> set ks))
       \<and> (s3Client st = Some client \<and> selectedBucket st = Some (ref_bucket s) \<and> ref_bucket s \<noteq> []
            \<and> selectedItems st = [p] \<and> p \<in> set (ref_keys s) \<longrightarrow>
          (\<exists>st' w' ks. handleDeleteSelected ref_service st \<lparr>store = s, sent = l\<rparr> = Some (Inr (), st', w')
            \<and> delete_requests (sent w') = delete_requests l @ [ks] \<and> p \<in> set ks
            \<and> ref_keys (store w') = filter (\<lambda>k. \<not> startsWith k p) (ref_keys s)))"
proof (intro conjI impI)
  from ref_resolveKeys[of client s "[p]" l] assms obtain w' where
    "resolveKeys ref_service client (ref_bucket s) [p] \<lparr>store = s, sent = l\<rparr> =
       Some (Inr (new_Set (filter (\<lambda>k. startsWith k p) (ref_keys s))), w')"
    by (auto simp: contribution_def)
  then show "\<exists>ks w'. resolveKeys ref_service client (ref_bucket s) [p] \<lparr>store = s, sent = l\<rparr> = Some (Inr ks, w')
            \<and> set ks = {k \<in> set (ref_keys s). startsWith k p}
            \<and> (p \<in> set (ref_keys s) \<longrightarrow> p \<in> set ks)"
    by (intro exI[of _ "new_Set (filter (\<lambda>k. startsWith k p) (ref_keys s))"] exI[of _ w'])
       (auto simp: set_new_Set startsWith_refl)
next
  assume h: "s3Client st = Some client \<and> selectedBucket st = Some (ref_bucket s) \<and> ref_bucket s \<noteq> []
            \<and> selectedItems st = [p] \<and> p \<in> set (ref_keys s)"
  then have "p \<in> set (new_Set (filter (\<lambda>k. startsWith k p) (ref_keys s)))"
    by (simp add: set_new_Set startsWith_refl)
  with ref_delete_folder[of st client s p l] h assms
  show "\<exists>st' w' ks. handleDeleteSelected ref_service st \<lparr>store = s, sent = l\<rparr> = Some (Inr (), st', w')
            \<and> delete_requests (sent w') = delete_requests l @ [ks] \<and> p \<in> set ks
            \<and> ref_keys (store w') = filter (\<lambda>k. \<not> startsWith k p) (ref_keys s)"
    by blast
qed

theorem folder_resolves_to_keys_under_prefix_witness:
  "map_option fst (resolveKeys ref_service example_client ''photos'' [''a/''] (photos_world [0])) =
     Some (Inr [''a/'', ''a/1'', ''a/2'', ''a/sub/3''])
   \<and> map_option (\<lambda>(r, st', w'). (delete_requests (sent w'), ref_keys (store w')))
       (handleDeleteSelected ref_service (photos_state\<lparr>selectedItems := [''a/'']\<rparr>) (photos_world [0])) =
     Some ([[''a/'', ''a/1'', ''a/2'', ''a/sub/3'']], [''x''])"
proof -
  have e: "endsWith ''a/'' ''/''" by (simp add: endsWith_def)
  have eval: "map_option (\<lambda>(r, st', w'). delete_requests (sent w'))
       (handleDeleteSelected ref_service (photos_state\<lparr>selectedItems := [''a/'']\<rparr>) (photos_world [0])) =
     Some [[''a/'', ''a/1'', ''a/2'', ''a/sub/3'']]"
    by code_simp
  have res: "map_option fst (resolveKeys ref_service example_client ''photos'' [''a/''] (photos_world [0])) =
     Some (Inr [''a/'', ''a/1'', ''a/2'', ''a/sub/3''])"
    by code_simp
  have h: "s3Client (photos_state\<lparr>selectedItems := [''a/'']\<rparr>) = Some example_client
      \<and> selectedBucket (photos_state\<lparr>selectedItems := [''a/'']\<rparr>) = Some (ref_bucket (photos_store [0]))
      \<and> ref_bucket (photos_store [0]) \<noteq> []
      \<and> selectedItems (photos_state\<lparr>selectedItems := [''a/'']\<rparr>) = [''a/'']
      \<and> ''a/'' \<in> set (ref_keys (photos_store [0]))"
    by (simp add: photos_select_client photos_select_bucket photos_store_def)
  from folder_resolves_to_keys_under_prefix[OF e, of example_client "photos_store [0]" "[]" "photos_state\<lparr>selectedItems := [''a/'']\<rparr>"] h
  obtain st' w' where
    run: "handleDeleteSelected ref_service (photos_state\<lparr>selectedItems := [''a/'']\<rparr>)
        \<lparr>store = photos_store [0], sent = []\<rparr> = Some (Inr (), st', w')"
    and keys: "ref_keys (store w') = filter (\<lambda>k. \<not> startsWith k ''a/'') (ref_keys (photos_store [0]))"
    by blast
  have "filter (\<lambda>k. \<not> startsWith k ''a/'') (ref_keys (photos_store [0])) = [''x'']"
    by (simp add: photos_store_def startsWith_def)
  with run keys eval res show ?thesis by (simp add: photos_world_def)
qed

text \<open>
  The selection \<open>x\<close>, \<open>a/\<close>, \<open>a/1\<close> on the reference bucket: with pages of one
  key and with pages of two keys the result is the same five keys, and \<open>a/1\<close>,
  which is selected and also lies under \<open>a/\<close>, occurs once.
\<close>

section \<open>Properties of the upload loop\<close>

lemma run_callbacks_single:
  "id' t = uid \<Longrightarrow>
   run_callbacks uid prs [t] = map (\<lambda>pr. [t\<lparr>progress := percent pr\<rparr>]) prs"
proof (induction prs arbitrary: t)
  case Nil
  show ?case by simp
next
  case (Cons pr prs)
  have step: "on_httpUploadProgress uid pr [t] = [t\<lparr>progress := percent pr\<rparr>]"
    using Cons.prems by (simp add: on_httpUploadProgress_def)
  have "id' (t\<lparr>progress := percent pr\<rparr>) = uid" using Cons.prems by simp
  from Cons.IH[OF this] step show ?case by (simp add: Let_def)
qed

lemma last_single_updates:
  "filter (\<lambda>x. id' x \<noteq> id' t) (last ([t] # map (\<lambda>pr. [t\<lparr>progress := percent pr\<rparr>]) prs)) = []"
  by (induction prs rule: rev_induct) simp_all

lemma fetchObjects_uploads:
  "filter is_upload (sent (snd (fetchObjects srv bk p st w))) = filter is_upload (sent w)"
proof (cases "s3Client st")
  case None
  then show ?thesis by (simp add: fetchObjects_def)
next
  case (Some client)
  show ?thesis
  proof (cases bk)
    case None
    with Some show ?thesis by (simp add: fetchObjects_def)
  next
    case (Some b)
    show ?thesis
    proof (cases "b = []")
      case True
      with Some \<open>s3Client st = Some client\<close> show ?thesis by (simp add: fetchObjects_def)
    next
      case False
      from fetchObjects_sent[OF \<open>s3Client st = Some client\<close> False, of srv p w] Some
      show ?thesis by simp
    qed
  qed
qed

lemma upload_loop_Cons:
  assumes "send srv client (UploadCommand b (pfx @ file_name f) (file_name f)) w = (r, w1)"
    and "uploadId = file_name f @ ''-'' @ show_nat (date_now tr)"
    and "started = uploadingFiles st @ [\<lparr>id' = uploadId, name = file_name f, progress = 0\<rparr>]"
    and "updates = run_callbacks uploadId (callbacks tr) started"
    and "res =
     (case r of
        Inr out \<Rightarrow>
          fetchObjects srv (Some b) pfx
            (showAlert (''File '' @ [CHR 0x22] @ file_name f @ [CHR 0x22] @
               '' uploaded successfully.'') ''success''
               (st\<lparr>uploadingFiles := last (started # updates)\<rparr>)) w1
      | Inl err \<Rightarrow>
          (showAlert (''Failed to upload '' @ [CHR 0x22] @ file_name f @ [CHR 0x22] @
             ''.'') ''error'' (st\<lparr>uploadingFiles := last (started # updates)\<rparr>), w1))"
    and "settled = filter (\<lambda>t. id' t \<noteq> uploadId) (uploadingFiles (fst res))"
    and "upload_loop srv client b pfx rest ((fst res)\<lparr>uploadingFiles := settled\<rparr>) (snd res)
           = (trace, st', w')"
  shows "upload_loop srv client b pfx ((f, tr) # rest) st w =
           (started # updates @ settled # trace, st', w')"
  using assms(1,7) unfolding assms(6) assms(5) assms(4) assms(3) assms(2)
  by (cases r) (simp_all add: Let_def case_prod_beta del: last.simps)

lemma upload_loop_sequential:
  assumes "uploadingFiles st = []"
  shows "fst (upload_loop srv client b pfx files st w) = concat (map task_trajectory files)
       \<and> uploadingFiles (fst (snd (upload_loop srv client b pfx files st w))) = []
       \<and> filter is_upload (sent (snd (snd (upload_loop srv client b pfx files st w)))) =
           filter is_upload (sent w) @ map (upload_command b pfx) files"
  using assms
proof (induction files arbitrary: st w)
  case Nil
  then show ?case by simp
next
  case (Cons ft rest)
  obtain f tr where ft: "ft = (f, tr)" by (cases ft)
  define uid where "uid = file_name f @ ''-'' @ show_nat (date_now tr)"
  define t where "t = \<lparr>id' = uid, name = file_name f, progress = 0\<rparr>"
  define updates where "updates = map (\<lambda>pr. [t\<lparr>progress := percent pr\<rparr>]) (callbacks tr)"
  let ?cmd = "UploadCommand b (pfx @ file_name f) (file_name f)"
  have idt: "id' t = uid" by (simp add: t_def)
  have started: "[t] = uploadingFiles st @ [\<lparr>id' = uid, name = file_name f, progress = 0\<rparr>]"
    using Cons.prems by (simp add: t_def)
  have upd: "updates = run_callbacks uid (callbacks tr) [t]"
    unfolding updates_def by (rule run_callbacks_single[OF idt, symmetric])
  obtain r w1 where s: "send srv client ?cmd w = (r, w1)"
    by (cases "send srv client ?cmd w")
  define st1 where "st1 = st\<lparr>uploadingFiles := last ([t] # updates)\<rparr>"
  define res where "res =
     (case r of
        Inr out \<Rightarrow>
          fetchObjects srv (Some b) pfx
            (showAlert (''File '' @ [CHR 0x22] @ file_name f @ [CHR 0x22] @
               '' uploaded successfully.'') ''success''
               (st\<lparr>uploadingFiles := last ([t] # updates)\<rparr>)) w1
      | Inl err \<Rightarrow>
          (showAlert (''Failed to upload '' @ [CHR 0x22] @ file_name f @ [CHR 0x22] @
             ''.'') ''error'' (st\<lparr>uploadingFiles := last ([t] # updates)\<rparr>), w1))"
  have uf2: "uploadingFiles (fst res) = last ([t] # updates)"
  proof (cases r)
    case (Inl err)
    then show ?thesis by (simp add: res_def showAlert_def del: last.simps)
  next
    case (Inr out)
    with fetchObjects_frame[of srv "Some b" pfx
        "showAlert (''File '' @ [CHR 0x22] @ file_name f @ [CHR 0x22] @
               '' uploaded successfully.'') ''success''
               (st\<lparr>uploadingFiles := last ([t] # updates)\<rparr>)" w1]
    show ?thesis by (simp add: res_def showAlert_def del: last.simps)
  qed
  have log2: "filter is_upload (sent (snd res)) = filter is_upload (sent w) @ [?cmd]"
  proof (cases r)
    case (Inl err)
    with send_world[OF s] show ?thesis by (simp add: res_def)
  next
    case (Inr out)
    with fetchObjects_uploads[of srv "Some b" pfx
        "showAlert (''File '' @ [CHR 0x22] @ file_name f @ [CHR 0x22] @
               '' uploaded successfully.'') ''success''
               (st\<lparr>uploadingFiles := last ([t] # updates)\<rparr>)" w1] send_world[OF s]
    show ?thesis by (simp add: res_def)
  qed
  have settled: "[] = filter (\<lambda>x. id' x \<noteq> uid) (uploadingFiles (fst res))"
    using last_single_updates[of t "callbacks tr"] unfolding uf2 updates_def idt by simp
  let ?st3 = "(fst res)\<lparr>uploadingFiles := []\<rparr>"
  obtain trace st' w' where rec: "upload_loop srv client b pfx rest ?st3 (snd res) = (trace, st', w')"
    by (cases "upload_loop srv client b pfx rest ?st3 (snd res)")
  have step: "upload_loop srv client b pfx ((f, tr) # rest) st w = ([t] # updates @ [] # trace, st', w')"
    by (rule upload_loop_Cons[OF s uid_def started upd res_def settled rec])
  have clean: "uploadingFiles ?st3 = []" by simp
  from Cons.IH[OF clean, of "snd res"] rec have tr: "trace = concat (map task_trajectory rest)"
    and u: "uploadingFiles st' = []"
    and l: "filter is_upload (sent w') =
              filter is_upload (sent (snd res)) @ map (upload_command b pfx) rest"
    by simp_all
  have traj: "task_trajectory ft = [t] # updates @ [[]]"
    by (simp add: task_trajectory_def ft Let_def t_def updates_def uid_def)
  from step tr u l log2 traj show ?case
    by (simp add: upload_command_def ft)
qed

lemma task_trajectory_short: "snapshot \<in> set (task_trajectory ft) \<Longrightarrow> length snapshot \<le> 1"
  by (cases ft) (auto simp: task_trajectory_def Let_def)

text \<open>
  C2, amended. When files are handed to \<open>handleFileUpload\<close> while no upload is
  tracked, they are transferred one after another in list order: the values of
  \<open>uploadingFiles\<close> are the trajectory of the first file, then that of the second,
  and so on, so a file's task is created only after the task of the file before it
  has been removed, and at most one task is tracked at any moment. Each trajectory is
  made of the file's own name, clock reading and callbacks only; the store's answers
  do not occur in it. So whether a transfer fails changes neither the progress values
  of another file nor the removal of its task, none is tracked at the end, and one
  upload command is sent for every file, in list order.
\<close>

theorem uploads_one_at_a_time:
  assumes "s3Client st = Some client" and "selectedBucket st = Some b" and "b \<noteq> []"
    and "uploadingFiles st = []"
  shows "fst (handleFileUpload srv files st w) = concat (map task_trajectory files)
       \<and> (\<forall>snapshot \<in> set (fst (handleFileUpload srv files st w)). length snapshot \<le> 1)
       \<and> uploadingFiles (fst (snd (handleFileUpload srv files st w))) = []
       \<and> filter is_upload (sent (snd (snd (handleFileUpload srv files st w)))) =
           filter is_upload (sent w) @ map (upload_command b (prefix st)) files"
proof -
  have run: "handleFileUpload srv files st w = upload_loop srv client b (prefix st) files st w"
    using assms(1,2,3) by (cases files) (simp_all add: handleFileUpload_def)
  note seq = upload_loop_sequential[OF assms(4), of srv client b "prefix st" files w]
  have "\<forall>snapshot \<in> set (concat (map task_trajectory files)). length snapshot \<le> 1"
    by (auto dest: task_trajectory_short)
  with seq show ?thesis unfolding run by simp
qed

text \<open>
  C2, as stated, fails. Two files \<open>A\<close> and \<open>B\<close> are picked. The task of \<open>B\<close>
  appears only after the task of \<open>A\<close> has reached 100 and has been removed, and the
  upload of \<open>B\<close> is sent after the upload of \<open>A\<close> and the refresh that follows it:
  the loop awaits each transfer, the two are never in flight together.
\<close>

theorem uploads_not_concurrent_counterexample:
  "fst (handleFileUpload ref_service two_files photos_state (photos_world [])) =
     [[\<lparr>id' = ''A-5'', name = ''A'', progress = 0\<rparr>],
      [\<lparr>id' = ''A-5'', name = ''A'', progress = 50\<rparr>],
      [\<lparr>id' = ''A-5'', name = ''A'', progress = 100\<rparr>],
      [],
      [\<lparr>id' = ''B-17'', name = ''B'', progress = 0\<rparr>],
      [\<lparr>id' = ''B-17'', name = ''B'', progress = 100\<rparr>],
      []]
   \<and> sent (snd (snd (handleFileUpload ref_service two_files photos_state (photos_world [])))) =
     [UploadCommand ''photos'' ''A'' ''A'', ListObjectsV2Command ''photos'' [] (Some ''/'') None,
      UploadCommand ''photos'' ''B'' ''B'', ListObjectsV2Command ''photos'' [] (Some ''/'') None]"
  by code_simp

text \<open>
  The same two files against a store that rejects the upload of \<open>A\<close>: the values of
  \<open>uploadingFiles\<close> are those of the run in which both uploads succeed, and \<open>B\<close>
  is uploaded all the same (only the refresh after \<open>A\<close> is missing).
\<close>

theorem uploads_one_at_a_time_witness:
  "fst (handleFileUpload upload_of_A_fails two_files photos_state (photos_world [])) =
     fst (handleFileUpload ref_service two_files photos_state (photos_world []))
   \<and> list_all (\<lambda>snapshot. length snapshot \<le> 1)
       (fst (handleFileUpload upload_of_A_fails two_files photos_state (photos_world [])))
   \<and> uploadingFiles (fst (snd (handleFileUpload upload_of_A_fails two_files photos_state (photos_world [])))) = []
   \<and> sent (snd (snd (handleFileUpload upload_of_A_fails two_files photos_state (photos_world [])))) =
     [UploadCommand ''photos'' ''A'' ''A'',
      UploadCommand ''photos'' ''B'' ''B'', ListObjectsV2Command ''photos'' [] (Some ''/'') None]"
proof -
  have c: "s3Client photos_state = Some example_client"
    and b: "selectedBucket photos_state = Some ''photos''"
    and u: "uploadingFiles photos_state = []"
    by (simp_all add: photos_state_def initial_state_def)
  have n: "''photos'' \<noteq> []" by simp
  note fails = uploads_one_at_a_time[OF c b n u, of upload_of_A_fails two_files "photos_world []"]
  note works = uploads_one_at_a_time[OF c b n u, of ref_service two_files "photos_world []"]
  have log: "sent (snd (snd (handleFileUpload upload_of_A_fails two_files photos_state (photos_world [])))) =
     [UploadCommand ''photos'' ''A'' ''A'',
      UploadCommand ''photos'' ''B'' ''B'', ListObjectsV2Command ''photos'' [] (Some ''/'') None]"
    by code_simp
  from fails works log show ?thesis by (simp add: list_all_iff)
qed

end
